theory Spec2Isabelle
  imports Main "HOL-Library.AList" "HOL-Library.Sublist" "HOL-Library.Multiset"
begin

section \<open>Actor runtime: data model\<close>

text \<open>
  The dataflow scheduler core (\<^verbatim>\<open>AbstractActor\<close>). An actor id is identified by its
  \<^verbatim>\<open>Name()\<close>. A device tensor is represented by the result of its \<^verbatim>\<open>GetPtr()\<close>
  (\<open>None\<close> is the null device address), and every C++ pointer that the code tests
  against null is an \<open>option\<close>.
\<close>

type_synonym AID = string

type_synonym device_tensor = "nat option"

record op_data =
  op_id :: AID
  data :: "device_tensor option"
  index :: int

record op_context =
  sequential_num :: nat

text \<open>
  Modelled from the spec: the four output-data flag constants, declared in a header of
  the runtime; the spec's data model lists them as \<open>Init\<close>, \<open>Batch\<close>, \<open>LastBatch\<close> and
  \<open>ToStack\<close>, four distinct values. The names keep the spelling of the code.
\<close>

datatype output_data_flag =
  kOutputDataFalgInit | kOutputDataFalgBatch | kOutputDataFalgLastBatch | kOutputDataFalgToStack

record data_arrow =
  to_op_id :: AID
  to_input_index :: int
  flag :: output_data_flag

datatype error =
    NullPointerException
  | NotSupportBatchToStack
  | IndexOutOfRange
  | CNodeShouldBeUnique
  | CannotFindAdjoint nat
  | AdjointDoesNotExist nat

text \<open>
  Everything an actor does to the world outside its own fields is an event: the lines it
  writes to the log, the messages it hands to \<^verbatim>\<open>ActorDispatcher::Send\<close>, the call of
  the recorder hook and the two macros that set the outcome of the run in the context
  (\<^verbatim>\<open>SET_OPCONTEXT_FAIL_RET_WITH_ERROR\<close>, \<^verbatim>\<open>SET_OPCONTEXT_SUCCESS_RET\<close>). A batch
  message carries the addresses of the cached envelopes, which are their positions in
  \<open>output_data\<close>.
\<close>

datatype event =
    LogDebugRunningCondition bool
  | LogDebugReceiveBatch
  | LogErrorInvalidInputDataNum nat nat
  | LogErrorInvalidInputControlNum nat nat
  | LogErrorEraseInputData nat
  | LogErrorEraseInputControls nat
  | SendRunOpData AID op_data
  | SendRunBatchOpData AID "nat list"
  | SendRunOpControl AID AID
  | SendRecorderInfo
  | SetFailed string
  | SetSuccess

text \<open>
  The per-run tables \<open>input_op_datas\<close> and \<open>input_op_controls\<close> are association lists
  from the sequential number of a run to the messages received for it. The two batch
  tables are only ever read and written through \<^verbatim>\<open>operator[]\<close>, which gives the empty
  vector for a missing key.
\<close>

record actor =
  aid :: AID
  type :: nat
  input_datas_num :: nat
  input_controls_num :: nat
  input_op_datas :: "(nat \<times> op_data list) list"
  input_op_controls :: "(nat \<times> AID option list) list"
  output_data_arrows :: "data_arrow option list"
  output_data_nodes :: "nat option list"
  output_control_arrows :: "AID list"
  batch_output_data_arrows :: "(string \<times> data_arrow option list) list"
  output_data :: "(op_data option \<times> output_data_flag) list"
  batch_output_data :: "(string \<times> nat list) list"
  to_stack_data :: "op_data list"

definition at_default :: "('k \<times> 'v list) list \<Rightarrow> 'k \<Rightarrow> 'v list" where
  "at_default m k = (case map_of m k of None \<Rightarrow> [] | Some v \<Rightarrow> v)"

definition emplace_back :: "'k \<Rightarrow> 'v \<Rightarrow> ('k \<times> 'v list) list \<Rightarrow> ('k \<times> 'v list) list" where
  "emplace_back k v m = AList.update k (at_default m k @ [v]) m"

type_synonym 'a effect = "error + ('a \<times> event list)"

text \<open>
  \<^verbatim>\<open>Run\<close> is a virtual method whose overriding bodies are in the derived actors. It is a
  parameter of the model: a function from the context and the actor to the actor it
  leaves behind and the events it produced, or to the exception it raised.
\<close>

type_synonym run_fn = "op_context \<Rightarrow> actor \<Rightarrow> actor effect"

definition emit :: "event list \<Rightarrow> 'a effect \<Rightarrow> 'a effect" where
  "emit evs r = (case r of Inl e \<Rightarrow> Inl e | Inr (x, evs') \<Rightarrow> Inr (x, evs @ evs'))"

section \<open>Actor runtime: readiness and delivery\<close>

definition CheckRunningCondition :: "op_context option \<Rightarrow> actor \<Rightarrow> error + (bool \<times> event list)" where
  "CheckRunningCondition context a =
    (case context of
       None \<Rightarrow> Inl NullPointerException
     | Some ctx \<Rightarrow>
        (let data_part =
           (if input_datas_num a \<noteq> 0 then
              (case map_of (input_op_datas a) (sequential_num ctx) of
                 None \<Rightarrow> Some (False, [])
               | Some ds \<Rightarrow>
                   if length ds < input_datas_num a then Some (False, [])
                   else if length ds > input_datas_num a
                   then Some (False, [LogErrorInvalidInputDataNum (length ds) (input_datas_num a)])
                   else None)
            else None)
         in case data_part of
              Some r \<Rightarrow> Inr r
            | None \<Rightarrow>
               (if input_controls_num a \<noteq> 0 then
                  (case map_of (input_op_controls a) (sequential_num ctx) of
                     None \<Rightarrow> Inr (False, [])
                   | Some cs \<Rightarrow>
                       if length cs < input_controls_num a then Inr (False, [])
                       else if length cs > input_controls_num a
                       then Inr (False, [LogErrorInvalidInputControlNum (length cs) (input_controls_num a)])
                       else Inr (True, []))
                else Inr (True, []))))"

definition RunOpData :: "run_fn \<Rightarrow> op_data option \<Rightarrow> op_context option \<Rightarrow> actor \<Rightarrow> actor effect" where
  "RunOpData run input_data context a =
    (case input_data of
       None \<Rightarrow> Inl NullPointerException
     | Some d \<Rightarrow>
        (case data d of
           None \<Rightarrow> Inl NullPointerException
         | Some None \<Rightarrow> Inl NullPointerException
         | Some (Some p) \<Rightarrow>
            (case context of
               None \<Rightarrow> Inl NullPointerException
             | Some ctx \<Rightarrow>
                (let a1 = a\<lparr>input_op_datas := emplace_back (sequential_num ctx) d (input_op_datas a)\<rparr>
                 in case CheckRunningCondition context a1 of
                      Inl e \<Rightarrow> Inl e
                    | Inr (is_run, evs) \<Rightarrow>
                        if is_run
                        then emit (evs @ [LogDebugRunningCondition is_run]) (run ctx a1)
                        else Inr (a1, evs @ [LogDebugRunningCondition is_run])))))"

definition RunOpControl :: "run_fn \<Rightarrow> AID option \<Rightarrow> op_context option \<Rightarrow> actor \<Rightarrow> actor effect" where
  "RunOpControl run input_control context a =
    (case context of
       None \<Rightarrow> Inl NullPointerException
     | Some ctx \<Rightarrow>
        (let a1 = a\<lparr>input_op_controls :=
                     emplace_back (sequential_num ctx) input_control (input_op_controls a)\<rparr>
         in case CheckRunningCondition context a1 of
              Inl e \<Rightarrow> Inl e
            | Inr (is_run, evs) \<Rightarrow>
                if is_run
                then emit (evs @ [LogDebugRunningCondition is_run]) (run ctx a1)
                else Inr (a1, evs @ [LogDebugRunningCondition is_run])))"

text \<open>The loop of \<^verbatim>\<open>RunBatchOpData\<close>: one \<open>RunOpData\<close> per member, in order.\<close>

fun run_each :: "run_fn \<Rightarrow> op_data option list \<Rightarrow> op_context option \<Rightarrow> actor \<Rightarrow> actor effect" where
  "run_each run [] context a = Inr (a, [])"
| "run_each run (d # ds) context a =
     (case RunOpData run d context a of
        Inl e \<Rightarrow> Inl e
      | Inr (a1, evs) \<Rightarrow> emit evs (run_each run ds context a1))"


definition EraseInput :: "op_context option \<Rightarrow> actor \<Rightarrow> actor effect" where
  "EraseInput context a =
    (case context of
       None \<Rightarrow> Inl NullPointerException
     | Some ctx \<Rightarrow>
        (let seq = sequential_num ctx;
             erase_data = (input_datas_num a \<noteq> 0 \<and> input_op_datas a \<noteq> []);
             a1 = (if erase_data then a\<lparr>input_op_datas := AList.delete seq (input_op_datas a)\<rparr> else a)
         in if erase_data \<and> map_of (input_op_datas a) seq = None
            then Inr (a1, [LogErrorEraseInputData seq])
            else
              (let erase_control = (input_controls_num a1 \<noteq> 0 \<and> input_op_controls a1 \<noteq> []);
                   a2 = (if erase_control
                         then a1\<lparr>input_op_controls := AList.delete seq (input_op_controls a1)\<rparr>
                         else a1)
               in if erase_control \<and> map_of (input_op_controls a1) seq = None
                  then Inr (a2, [LogErrorEraseInputControls seq])
                  else Inr (a2, []))))"


text \<open>
  The actor after the data messages \<open>ds\<close> of one run have been appended to its pending
  list, one \<^verbatim>\<open>emplace_back\<close> each: the state that a sequence of deliveries which do not
  fire leaves behind.
\<close>

definition received :: "op_context \<Rightarrow> op_data list \<Rightarrow> actor \<Rightarrow> actor" where
  "received ctx ds a =
     a\<lparr>input_op_datas := foldl (\<lambda>m d. emplace_back (sequential_num ctx) d m) (input_op_datas a) ds\<rparr>"

section \<open>Actor runtime: output envelopes and dispatch\<close>

text \<open>
  \<open>batch_op_count\<close> of \<^verbatim>\<open>InitOutputData\<close> is a hash map from names to counters; a
  missing counter reads as zero.
\<close>

definition count_of :: "(string \<times> nat) list \<Rightarrow> string \<Rightarrow> nat" where
  "count_of m k = (case map_of m k of None \<Rightarrow> 0 | Some n \<Rightarrow> n)"

text \<open>
  The loop of \<^verbatim>\<open>InitOutputData\<close> over the output data arrows. The name suffix that
  marks a stack actor (\<^verbatim>\<open>kStackActorNameSuffix\<close>) is a constant of a header and is a
  parameter here; \<^verbatim>\<open>find(...) != npos\<close> is the test for a contiguous substring. The
  address \<^verbatim>\<open>data.get()\<close> stored in the batch list is the position that the envelope
  takes in \<open>output_data\<close>.
\<close>

fun init_output_data_loop ::
  "string \<Rightarrow> data_arrow option list \<Rightarrow> (string \<times> nat) list \<Rightarrow> actor \<Rightarrow> error + actor" where
  "init_output_data_loop stack_suffix [] batch_op_count a = Inr a"
| "init_output_data_loop stack_suffix (data_arrow # rest) batch_op_count a =
    (case data_arrow of
       None \<Rightarrow> Inl NullPointerException
     | Some arrow \<Rightarrow>
        (let env = \<lparr>op_id = to_op_id arrow, data = None, index = to_input_index arrow\<rparr>;
             to_op_name = to_op_id arrow;
             is_to_stack = sublist stack_suffix to_op_name;
             output_data_flag = (if is_to_stack then kOutputDataFalgToStack else kOutputDataFalgInit)
         in if flag arrow = kOutputDataFalgBatch then
              (if is_to_stack then Inl NotSupportBatchToStack
               else
                 (let a1 = a\<lparr>batch_output_data :=
                              emplace_back to_op_name (length (output_data a)) (batch_output_data a)\<rparr>;
                      cnt = AList.update to_op_name (count_of batch_op_count to_op_name + 1) batch_op_count;
                      fl = (if count_of cnt to_op_name =
                               length (at_default (batch_output_data_arrows a1) to_op_name)
                            then kOutputDataFalgLastBatch else kOutputDataFalgBatch)
                  in init_output_data_loop stack_suffix rest cnt
                       (a1\<lparr>output_data := output_data a1 @ [(Some env, fl)]\<rparr>)))
            else init_output_data_loop stack_suffix rest batch_op_count
                   (a\<lparr>output_data := output_data a @ [(Some env, output_data_flag)]\<rparr>)))"

definition InitOutputData :: "string \<Rightarrow> actor \<Rightarrow> error + actor" where
  "InitOutputData stack_suffix a = init_output_data_loop stack_suffix (output_data_arrows a) [] a"

text \<open>
  \<^verbatim>\<open>UpdateOutputData\<close> is a virtual method that refreshes the payload of a cached
  envelope in place; it is a parameter that maps the envelope, its arrow, its output node
  and the context to the refreshed envelope.
\<close>

type_synonym update_fn = "op_data \<Rightarrow> data_arrow \<Rightarrow> nat option \<Rightarrow> op_context \<Rightarrow> op_data"

text \<open>
  One round of the loop of \<^verbatim>\<open>SendOutput\<close>, for the envelope at position \<open>j\<close>, which is
  also the value of \<open>output_data_arrow_index\<close>. Reading a vector past its end is
  undefined in C++ and is the result \<open>IndexOutOfRange\<close> here. \<open>to_op_id\<close> is a reference
  into the envelope, so it is read after the update.
\<close>

definition send_output_data :: "update_fn \<Rightarrow> op_context \<Rightarrow> nat \<Rightarrow> actor \<Rightarrow> actor effect" where
  "send_output_data upd ctx j a =
    (case fst (output_data a ! j) of
       None \<Rightarrow> Inl NullPointerException
     | Some env \<Rightarrow>
        if length (output_data_arrows a) \<le> j then Inl IndexOutOfRange
        else
          (case output_data_arrows a ! j of
             None \<Rightarrow> Inl NullPointerException
           | Some arrow \<Rightarrow>
              if length (output_data_nodes a) \<le> j then Inl IndexOutOfRange
              else
                (let fl = snd (output_data a ! j);
                     env1 = upd env arrow (output_data_nodes a ! j) ctx;
                     a1 = a\<lparr>output_data := (output_data a)[j := (Some env1, fl)]\<rparr>;
                     to_op = op_id env1
                 in if fl = kOutputDataFalgLastBatch then
                      Inr (a1, [SendRunBatchOpData to_op (at_default (batch_output_data a1) to_op)])
                    else if fl = kOutputDataFalgToStack then
                      (let to_stack = \<lparr>op_id = to_op, data = data env1, index = index env1\<rparr>
                       in Inr (a1\<lparr>to_stack_data := to_stack_data a1 @ [to_stack]\<rparr>,
                               [SendRunOpData to_op to_stack]))
                    else if fl \<noteq> kOutputDataFalgBatch then
                      Inr (a1, [SendRunOpData to_op env1])
                    else Inr (a1, []))))"

fun send_output_data_loop :: "update_fn \<Rightarrow> op_context \<Rightarrow> nat list \<Rightarrow> actor \<Rightarrow> actor effect" where
  "send_output_data_loop upd ctx [] a = Inr (a, [])"
| "send_output_data_loop upd ctx (j # js) a =
    (case send_output_data upd ctx j a of
       Inl e \<Rightarrow> Inl e
     | Inr (a1, evs) \<Rightarrow> emit evs (send_output_data_loop upd ctx js a1))"

text \<open>
  \<^verbatim>\<open>SendOutput\<close>. The ordinal of \<^verbatim>\<open>KernelTransformType::kSwitchActor\<close>, the first of
  the control-flow actor types, is a constant of a header and is a parameter here.
\<close>

definition SendOutput :: "update_fn \<Rightarrow> nat \<Rightarrow> op_context option \<Rightarrow> actor \<Rightarrow> actor effect" where
  "SendOutput upd kSwitchActor context a =
    (case context of
       None \<Rightarrow> Inl NullPointerException
     | Some ctx \<Rightarrow>
        if (length (output_data_arrows a) \<noteq> length (output_data a) \<or>
            length (output_data_arrows a) \<noteq> length (output_data_nodes a)) \<and>
           type a < kSwitchActor
        then Inr (a, [SetFailed ''The size of output data arrows is not equal to the output data.''])
        else
          (case send_output_data_loop upd ctx [0..<length (output_data a)] a of
             Inl e \<Rightarrow> Inl e
           | Inr (a1, data_evs) \<Rightarrow>
               Inr (a1,
                    data_evs
                    @ map (\<lambda>output_control. SendRunOpControl output_control (aid a1))
                        (output_control_arrows a1)
                    @ [SendRecorderInfo]
                    @ (if length (output_data_arrows a1) = 0 \<and> length (output_control_arrows a1) = 0 \<and>
                          type a1 < kSwitchActor
                       then [SetSuccess] else []))))"

section \<open>Notions used to state the properties\<close>

text \<open>
  What an actor holds for the run \<open>r\<close>: its two pending lists for \<open>r\<close> and the declared
  input counts they are compared with.
\<close>

definition same_for_run :: "nat \<Rightarrow> actor \<Rightarrow> actor \<Rightarrow> bool" where
  "same_for_run r a a' =
     (map_of (input_op_datas a') r = map_of (input_op_datas a) r \<and>
      map_of (input_op_controls a') r = map_of (input_op_controls a) r \<and>
      input_datas_num a' = input_datas_num a \<and>
      input_controls_num a' = input_controls_num a)"

text \<open>Whether a sequence of events sets the outcome of the run to failed.\<close>

fun is_SetFailed :: "event \<Rightarrow> bool" where
  "is_SetFailed (SetFailed msg) = True"
| "is_SetFailed e = False"

definition records_failure :: "event list \<Rightarrow> bool" where
  "records_failure evs = list_ex is_SetFailed evs"

text \<open>A body of \<^verbatim>\<open>Run\<close> that does nothing.\<close>

definition run_nothing :: run_fn where
  "run_nothing ctx a = Inr (a, [])"

text \<open>
  The actor of the spec's scenario A, with two data inputs, no control input and one
  plain arrow to each of \<open>Y\<close> and \<open>Z\<close>, three data messages addressed to it, and run 7.
\<close>

definition actor_X :: actor where
  "actor_X =
     \<lparr>aid = ''X'', type = 4, input_datas_num = 2, input_controls_num = 0,
      input_op_datas = [], input_op_controls = [],
      output_data_arrows =
        [Some \<lparr>to_op_id = ''Y'', to_input_index = 0, flag = kOutputDataFalgInit\<rparr>,
         Some \<lparr>to_op_id = ''Z'', to_input_index = 0, flag = kOutputDataFalgInit\<rparr>],
      output_data_nodes = [Some 1, Some 2], output_control_arrows = [],
      batch_output_data_arrows = [], output_data = [], batch_output_data = [],
      to_stack_data = []\<rparr>"

definition msg1 :: op_data where
  "msg1 = \<lparr>op_id = ''X'', data = Some (Some 100), index = 0\<rparr>"

definition msg2 :: op_data where
  "msg2 = \<lparr>op_id = ''X'', data = Some (Some 200), index = 1\<rparr>"

definition msg3 :: op_data where
  "msg3 = \<lparr>op_id = ''X'', data = Some (Some 300), index = 1\<rparr>"

definition run7 :: op_context where
  "run7 = \<lparr>sequential_num = 7\<rparr>"

definition run8 :: op_context where
  "run8 = \<lparr>sequential_num = 8\<rparr>"

text \<open>The three null checks of \<^verbatim>\<open>RunOpData\<close> on a message that is not itself null.\<close>

definition valid_data :: "op_data \<Rightarrow> bool" where
  "valid_data d = (case data d of Some (Some p) \<Rightarrow> True | _ \<Rightarrow> False)"


text \<open>Whether an output data arrow is a batch arrow to the destination \<open>d\<close>.\<close>

definition is_batch_arrow_to :: "string \<Rightarrow> data_arrow option \<Rightarrow> bool" where
  "is_batch_arrow_to d x =
     (case x of None \<Rightarrow> False | Some ar \<Rightarrow> flag ar = kOutputDataFalgBatch \<and> to_op_id ar = d)"

text \<open>
  The envelope and the flag expected for the arrow at position \<open>k\<close> of \<open>arrows\<close>, when the
  batch counters stand at \<open>cnt\<close> before the first arrow: a batch arrow is the last of its
  destination when the batch arrows to that destination counted so far, itself included,
  are as many as the entries of the destination in the table of batch arrows.
\<close>

definition expected_envelope ::
  "string \<Rightarrow> (string \<times> data_arrow option list) list \<Rightarrow> (string \<times> nat) list \<Rightarrow>
   data_arrow option list \<Rightarrow> nat \<Rightarrow> op_data option \<times> output_data_flag" where
  "expected_envelope stack_suffix table cnt arrows k =
     (case arrows ! k of
        None \<Rightarrow> (None, kOutputDataFalgInit)
      | Some ar \<Rightarrow>
          (Some \<lparr>op_id = to_op_id ar, data = None, index = to_input_index ar\<rparr>,
           if flag ar = kOutputDataFalgBatch then
             (if count_of cnt (to_op_id ar)
                   + length (filter (is_batch_arrow_to (to_op_id ar)) (take (Suc k) arrows))
                 = length (at_default table (to_op_id ar))
              then kOutputDataFalgLastBatch else kOutputDataFalgBatch)
           else if sublist stack_suffix (to_op_id ar) then kOutputDataFalgToStack
           else kOutputDataFalgInit))"

text \<open>
  Three sending actors. \<open>actor_S\<close> has two batch arrows to \<open>D\<close> around a plain arrow to \<open>E\<close>,
  and its table of batch arrows lists the two. \<open>actor_T\<close> has two batch arrows to \<open>D\<close> and an
  empty table of batch arrows. \<open>actor_M\<close> has a plain arrow and a batch arrow to the same
  destination.
\<close>

definition actor_S :: actor where
  "actor_S =
     \<lparr>aid = ''S'', type = 4, input_datas_num = 0, input_controls_num = 0,
      input_op_datas = [], input_op_controls = [],
      output_data_arrows =
        [Some \<lparr>to_op_id = ''D'', to_input_index = 0, flag = kOutputDataFalgBatch\<rparr>,
         Some \<lparr>to_op_id = ''E'', to_input_index = 0, flag = kOutputDataFalgInit\<rparr>,
         Some \<lparr>to_op_id = ''D'', to_input_index = 1, flag = kOutputDataFalgBatch\<rparr>],
      output_data_nodes = [Some 1, Some 2, Some 3], output_control_arrows = [''F''],
      batch_output_data_arrows =
        [(''D'', [Some \<lparr>to_op_id = ''D'', to_input_index = 0, flag = kOutputDataFalgBatch\<rparr>,
                  Some \<lparr>to_op_id = ''D'', to_input_index = 1, flag = kOutputDataFalgBatch\<rparr>])],
      output_data = [], batch_output_data = [], to_stack_data = []\<rparr>"

definition actor_T :: actor where
  "actor_T =
     \<lparr>aid = ''T'', type = 4, input_datas_num = 0, input_controls_num = 0,
      input_op_datas = [], input_op_controls = [],
      output_data_arrows =
        [Some \<lparr>to_op_id = ''D'', to_input_index = 0, flag = kOutputDataFalgBatch\<rparr>,
         Some \<lparr>to_op_id = ''D'', to_input_index = 1, flag = kOutputDataFalgBatch\<rparr>],
      output_data_nodes = [Some 1, Some 2], output_control_arrows = [],
      batch_output_data_arrows = [],
      output_data = [], batch_output_data = [], to_stack_data = []\<rparr>"

definition actor_M :: actor where
  "actor_M =
     \<lparr>aid = ''M'', type = 4, input_datas_num = 0, input_controls_num = 0,
      input_op_datas = [], input_op_controls = [],
      output_data_arrows =
        [Some \<lparr>to_op_id = ''D'', to_input_index = 0, flag = kOutputDataFalgInit\<rparr>,
         Some \<lparr>to_op_id = ''D'', to_input_index = 1, flag = kOutputDataFalgBatch\<rparr>],
      output_data_nodes = [Some 1, Some 2], output_control_arrows = [],
      batch_output_data_arrows =
        [(''D'', [Some \<lparr>to_op_id = ''D'', to_input_index = 1, flag = kOutputDataFalgBatch\<rparr>])],
      output_data = [], batch_output_data = [], to_stack_data = []\<rparr>"

text \<open>
  The messages that the envelope at position \<open>j\<close> of the actor \<open>a\<close> gives rise to when
  \<^verbatim>\<open>SendOutput\<close> reaches it, read off the fields that \<open>a\<close> has before the dispatch.
\<close>

definition data_send_events :: "update_fn \<Rightarrow> op_context \<Rightarrow> actor \<Rightarrow> nat \<Rightarrow> event list" where
  "data_send_events upd ctx a j =
     (case (fst (output_data a ! j), output_data_arrows a ! j) of
        (Some env, Some arrow) \<Rightarrow>
          (let fl = snd (output_data a ! j);
               env1 = upd env arrow (output_data_nodes a ! j) ctx;
               to_op = op_id env1
           in if fl = kOutputDataFalgLastBatch
              then [SendRunBatchOpData to_op (at_default (batch_output_data a) to_op)]
              else if fl = kOutputDataFalgToStack
              then [SendRunOpData to_op \<lparr>op_id = to_op, data = data env1, index = index env1\<rparr>]
              else if fl \<noteq> kOutputDataFalgBatch then [SendRunOpData to_op env1]
              else [])
      | _ \<Rightarrow> [])"

fun is_data_send :: "event \<Rightarrow> bool" where
  "is_data_send (SendRunOpData to_op d) = True"
| "is_data_send (SendRunBatchOpData to_op ds) = True"
| "is_data_send e = False"


text \<open>
  An actor with no output arrow of either kind and one output node, and the ordinal 12
  for the first control-flow actor type.
\<close>

definition actor_Z :: actor where
  "actor_Z =
     \<lparr>aid = ''Z'', type = 4, input_datas_num = 1, input_controls_num = 0,
      input_op_datas = [], input_op_controls = [],
      output_data_arrows = [], output_data_nodes = [Some 1], output_control_arrows = [],
      batch_output_data_arrows = [], output_data = [], batch_output_data = [],
      to_stack_data = []\<rparr>"

text \<open>An \<^verbatim>\<open>UpdateOutputData\<close> that stores the device address 55 in the envelope.\<close>

definition update_55 :: update_fn where
  "update_55 env arrow node ctx = env\<lparr>data := Some (Some 55)\<rparr>"

text \<open>\<open>actor_X\<close> after \<^verbatim>\<open>InitOutputData\<close>: one plain envelope for each of its two arrows.\<close>

definition actor_X_ready :: actor where
  "actor_X_ready =
     actor_X\<lparr>output_data :=
       [(Some \<lparr>op_id = ''Y'', data = None, index = 0\<rparr>, kOutputDataFalgInit),
        (Some \<lparr>op_id = ''Z'', data = None, index = 0\<rparr>, kOutputDataFalgInit)]\<rparr>"


text \<open>
  Two states of an actor that differ at most in the envelopes at the positions \<open>J\<close> (and in
  the fields that the data loop of \<^verbatim>\<open>SendOutput\<close> never reads).
\<close>

definition agree_off :: "nat set \<Rightarrow> actor \<Rightarrow> actor \<Rightarrow> bool" where
  "agree_off J a b =
     (length (output_data b) = length (output_data a) \<and>
      (\<forall>k. k \<notin> J \<longrightarrow> output_data b ! k = output_data a ! k) \<and>
      output_data_arrows b = output_data_arrows a \<and>
      output_data_nodes b = output_data_nodes a \<and>
      output_control_arrows b = output_control_arrows a \<and>
      batch_output_data b = batch_output_data a \<and>
      aid b = aid a \<and> type b = type a)"


text \<open>
  Modelled from the spec: the body of the virtual \<^verbatim>\<open>Run\<close>, which is not part of the
  source at hand. The spec says of firing that "after firing completes, pending state for
  that run is erased for this actor (data and control independently, each only if that
  dimension was used)"; that erasure is \<^verbatim>\<open>EraseInput\<close>. What else a firing does (its
  computation, its dispatch) does not touch the pending lists and is left out.
\<close>

definition run_erase :: run_fn where
  "run_erase ctx a = EraseInput (Some ctx) a"

section \<open>Gradient tape: data model\<close>

text \<open>
  The tape builder (\<^verbatim>\<open>KPynativeCellImpl\<close>). A forward node is identified by its address;
  values and function graphs are opaque handles. The forward graph is a store from
  addresses to nodes: a \<open>CNode\<close> has its inputs (input 0 is the callee, the arguments
  follow) and its \<^verbatim>\<open>stop_gradient\<close> flag, which the tape builder sets in place.
\<close>

type_synonym node = nat

type_synonym val = nat

type_synonym func_graph = nat

datatype primitive = kPrimStopGradient | kPrimUpdateState | OtherPrimitive string

datatype anf_node =
    CNode "node list" bool
  | Parameter
  | ValueNode "primitive option"

type_synonym graph = "node \<Rightarrow> anf_node"

fun isa_CNode :: "anf_node \<Rightarrow> bool" where
  "isa_CNode (CNode ins sg) = True"
| "isa_CNode n = False"

fun inputs :: "anf_node \<Rightarrow> node list" where
  "inputs (CNode ins sg) = ins"
| "inputs n = []"

fun stop_gradient :: "anf_node \<Rightarrow> bool" where
  "stop_gradient (CNode ins sg) = sg"
| "stop_gradient n = False"

fun set_stop_gradient :: "bool \<Rightarrow> anf_node \<Rightarrow> anf_node" where
  "set_stop_gradient b (CNode ins sg) = CNode ins b"
| "set_stop_gradient b n = n"

text \<open>
  Modelled from the spec: \<^verbatim>\<open>IsPrimitiveCNode\<close>, a helper of the IR library. The spec
  speaks of a node that is a "stop gradient" or "update state" marker op: a \<open>CNode\<close> whose
  callee is the value node of that primitive.
\<close>

definition IsPrimitiveCNode :: "graph \<Rightarrow> node \<Rightarrow> primitive \<Rightarrow> bool" where
  "IsPrimitiveCNode g n p =
     (case g n of
        CNode ins sg \<Rightarrow>
          (case ins of [] \<Rightarrow> False
           | f # rest \<Rightarrow> (case g f of ValueNode (Some q) \<Rightarrow> q = p | _ \<Rightarrow> False))
      | _ \<Rightarrow> False)"

text \<open>
  The nodes that back-propagation puts on the tape, as terms: a parameter of the tape, a
  call node given from outside (such as \<open>bprop_app\<close>), the selection of a component of a
  tuple, the call of the \<open>hyper_add\<close> graph on two nodes, and the call of the \<open>zeros_like\<close>
  graph on a value.
\<close>

datatype tape_node =
    TapeParameter nat
  | TapeCNode nat
  | TupleGetItem tape_node nat
  | HyperAdd func_graph tape_node tape_node
  | ZerosLike func_graph val

record pynative_adjoint =
  tape :: func_graph
  users :: "node list"
  op_args :: "val list"
  out :: val
  bprop_fg :: "func_graph option"
  dout :: "tape_node option"

text \<open>
  \<open>anfnode_to_adjoin\<close> is an ordered map: an association list in insertion order, in which
  \<^verbatim>\<open>insert\<close> leaves an existing key alone.
\<close>

record k_pynative_cell =
  cell_tape :: func_graph
  anfnode_to_adjoin :: "(node \<times> pynative_adjoint) list"
  cell_inputs :: "node list"
  last_node :: "node option"
  need_propagate_stop_gradient :: bool

definition ordered_insert :: "'k \<Rightarrow> 'v \<Rightarrow> ('k \<times> 'v) list \<Rightarrow> ('k \<times> 'v) list" where
  "ordered_insert k v m = (if map_of m k = None then m @ [(k, v)] else m)"

section \<open>Gradient tape: gradient accumulation\<close>

text \<open>
  \<^verbatim>\<open>GetHyperAdd\<close> looks the \<open>hyper_add\<close> graph up for the abstract of \<open>out\<close>; it is a
  parameter that maps the output value to the graph, or to \<open>None\<close> when the result is
  null and \<^verbatim>\<open>MS_EXCEPTION_IF_NULL\<close> raises.
\<close>

definition AccumulateDout ::
  "(val \<Rightarrow> func_graph option) \<Rightarrow> tape_node \<Rightarrow> pynative_adjoint \<Rightarrow> error + pynative_adjoint" where
  "AccumulateDout GetHyperAdd dout_factor adj =
    (case dout adj of
       Some d \<Rightarrow>
         (case GetHyperAdd (out adj) of
            None \<Rightarrow> Inl NullPointerException
          | Some add_fg \<Rightarrow> Inr (adj\<lparr>dout := Some (HyperAdd add_fg d dout_factor)\<rparr>))
     | None \<Rightarrow> Inr (adj\<lparr>dout := Some dout_factor\<rparr>))"

text \<open>
  \<^verbatim>\<open>RealDout\<close>; \<^verbatim>\<open>GetZerosLike\<close> is a parameter in the same way.
\<close>

definition RealDout :: "(val \<Rightarrow> func_graph option) \<Rightarrow> pynative_adjoint \<Rightarrow> error + tape_node" where
  "RealDout GetZerosLike adj =
    (case dout adj of
       Some d \<Rightarrow> Inr d
     | None \<Rightarrow>
         (case GetZerosLike (out adj) of
            None \<Rightarrow> Inl NullPointerException
          | Some zeros_like_fg \<Rightarrow> Inr (ZerosLike zeros_like_fg (out adj))))"

text \<open>
  The loop of \<^verbatim>\<open>BackPropagate(cnode_primal, bprop_app)\<close> over the argument positions
  \<open>1, ..., size - 1\<close> of the primal node.
\<close>

fun back_propagate_loop ::
  "(val \<Rightarrow> func_graph option) \<Rightarrow> node list \<Rightarrow> tape_node \<Rightarrow> nat list \<Rightarrow>
   (node \<times> pynative_adjoint) list \<Rightarrow> error + (node \<times> pynative_adjoint) list" where
  "back_propagate_loop GetHyperAdd ins bprop_app [] m = Inr m"
| "back_propagate_loop GetHyperAdd ins bprop_app (i # rest) m =
    (let din = TupleGetItem bprop_app (i - 1);
         input = ins ! i
     in case map_of m input of
          None \<Rightarrow> Inl (AdjointDoesNotExist input)
        | Some adj \<Rightarrow>
            (case AccumulateDout GetHyperAdd din adj of
               Inl e \<Rightarrow> Inl e
             | Inr adj1 \<Rightarrow>
                 back_propagate_loop GetHyperAdd ins bprop_app rest (AList.update input adj1 m)))"

definition BackPropagate ::
  "(val \<Rightarrow> func_graph option) \<Rightarrow> graph \<Rightarrow> node \<Rightarrow> tape_node \<Rightarrow> k_pynative_cell \<Rightarrow>
   error + k_pynative_cell" where
  "BackPropagate GetHyperAdd g cnode_primal bprop_app c =
    (case back_propagate_loop GetHyperAdd (inputs (g cnode_primal)) bprop_app
            [1..<length (inputs (g cnode_primal))] (anfnode_to_adjoin c) of
       Inl e \<Rightarrow> Inl e
     | Inr m \<Rightarrow> Inr (c\<lparr>anfnode_to_adjoin := m\<rparr>))"

section \<open>Gradient tape: forward recording\<close>

text \<open>
  The loop of \<^verbatim>\<open>BuildAdjoint\<close> over the argument positions of the node being recorded.
  Reading \<open>op_args\<close> past its end is undefined in C++ and is \<open>IndexOutOfRange\<close> here.
\<close>

fun build_adjoint_loop ::
  "graph \<Rightarrow> func_graph \<Rightarrow> node \<Rightarrow> val list \<Rightarrow> nat list \<Rightarrow>
   (node \<times> pynative_adjoint) list \<Rightarrow> error + (node \<times> pynative_adjoint) list" where
  "build_adjoint_loop g tp cnode args [] m = Inr m"
| "build_adjoint_loop g tp cnode args (i # rest) m =
    (let inp_i = inputs (g cnode) ! i
     in case map_of m inp_i of
          None \<Rightarrow>
            if isa_CNode (g inp_i) then Inl (CannotFindAdjoint inp_i)
            else if length args \<le> i - 1 then Inl IndexOutOfRange
            else
              build_adjoint_loop g tp cnode args rest
                (ordered_insert inp_i
                   \<lparr>tape = tp, users = [cnode], op_args = [], out = args ! (i - 1),
                    bprop_fg = None, dout = None\<rparr> m)
        | Some adj \<Rightarrow>
            build_adjoint_loop g tp cnode args rest
              (AList.update inp_i (adj\<lparr>users := users adj @ [cnode]\<rparr>) m))"

definition BuildAdjoint ::
  "graph \<Rightarrow> node \<Rightarrow> val list \<Rightarrow> val \<Rightarrow> func_graph option \<Rightarrow> k_pynative_cell \<Rightarrow>
   error + k_pynative_cell" where
  "BuildAdjoint g cnode args output bprop c =
    (case map_of (anfnode_to_adjoin c) cnode of
       Some adj \<Rightarrow> Inl CNodeShouldBeUnique
     | None \<Rightarrow>
        (let c1 = c\<lparr>last_node := Some cnode\<rparr>;
             cnode_pynative_adjoint =
               \<lparr>tape = cell_tape c1, users = [], op_args = args, out = output,
                bprop_fg = bprop, dout = None\<rparr>;
             m1 = ordered_insert cnode cnode_pynative_adjoint (anfnode_to_adjoin c1)
         in case build_adjoint_loop g (cell_tape c1) cnode args
                   [1..<length (inputs (g cnode))] m1 of
              Inl e \<Rightarrow> Inl e
            | Inr m2 \<Rightarrow> Inr (c1\<lparr>anfnode_to_adjoin := m2\<rparr>)))"

section \<open>Gradient tape: stop-gradient propagation\<close>

definition AllReferencesStopped ::
  "graph \<Rightarrow> (node \<times> pynative_adjoint) list \<Rightarrow> node \<Rightarrow> error + bool" where
  "AllReferencesStopped g m curr_cnode =
    (case map_of m curr_cnode of
       None \<Rightarrow> Inl (CannotFindAdjoint curr_cnode)
     | Some adj \<Rightarrow>
         if users adj = [] then Inr False
         else Inr (list_all (\<lambda>user. isa_CNode (g user) \<and> stop_gradient (g user)) (users adj)))"

text \<open>
  The loop of \<^verbatim>\<open>PropagateStopGradient\<close> over the keys of the map, which the caller
  passes in reverse insertion order. \<open>||\<close> evaluates \<^verbatim>\<open>AllReferencesStopped\<close> only for a
  node that is neither of the two markers.
\<close>

fun propagate_loop ::
  "(node \<times> pynative_adjoint) list \<Rightarrow> node list \<Rightarrow> graph \<Rightarrow> error + graph" where
  "propagate_loop m [] g = Inr g"
| "propagate_loop m (n # rest) g =
    (if isa_CNode (g n) then
       (if \<not> stop_gradient (g n) then
          (if IsPrimitiveCNode g n kPrimStopGradient \<or> IsPrimitiveCNode g n kPrimUpdateState
           then propagate_loop m rest (g(n := set_stop_gradient True (g n)))
           else
             (case AllReferencesStopped g m n of
                Inl e \<Rightarrow> Inl e
              | Inr all_stopped \<Rightarrow>
                  if all_stopped
                  then propagate_loop m rest (g(n := set_stop_gradient True (g n)))
                  else propagate_loop m rest g))
        else propagate_loop m rest g)
     else propagate_loop m rest g)"

definition PropagateStopGradient :: "k_pynative_cell \<Rightarrow> graph \<Rightarrow> error + graph" where
  "PropagateStopGradient c g =
    (if need_propagate_stop_gradient c
     then propagate_loop (anfnode_to_adjoin c) (rev (map fst (anfnode_to_adjoin c))) g
     else Inr g)"

section \<open>Notions and examples for the tape\<close>

text \<open>The nodes at the argument positions \<open>is\<close> of a node.\<close>

definition arg_nodes :: "graph \<Rightarrow> node \<Rightarrow> nat list \<Rightarrow> node list" where
  "arg_nodes g cnode is = map (\<lambda>i. inputs (g cnode) ! i) is"

text \<open>
  The forward graph of the spec's scenario B: the parameter \<open>p0\<close> at address 1, the node
  \<open>n1 = f(p0)\<close> at address 2 and the node \<open>n2 = g(n1, p0)\<close> at address 4; the callees \<open>f\<close>
  and \<open>g\<close> are the value nodes at 0 and 3. \<open>tape_0\<close> is the empty tape for the input \<open>p0\<close>,
  \<open>tape_1\<close> the tape after recording \<open>n1\<close>, \<open>tape_2\<close> the tape after recording \<open>n2\<close> as well.
\<close>

definition graph_B :: graph where
  "graph_B =
     (\<lambda>n. Parameter)
       (0 := ValueNode (Some (OtherPrimitive ''f'')),
        2 := CNode [0, 1] False,
        3 := ValueNode (Some (OtherPrimitive ''g'')),
        4 := CNode [3, 2, 1] False)"

definition tape_0 :: k_pynative_cell where
  "tape_0 =
     \<lparr>cell_tape = 0, anfnode_to_adjoin = [], cell_inputs = [1], last_node = None,
      need_propagate_stop_gradient = False\<rparr>"

definition tape_1 :: k_pynative_cell where
  "tape_1 =
     \<lparr>cell_tape = 0,
      anfnode_to_adjoin =
        [(2, \<lparr>tape = 0, users = [], op_args = [10], out = 20, bprop_fg = Some 7, dout = None\<rparr>),
         (1, \<lparr>tape = 0, users = [2], op_args = [], out = 10, bprop_fg = None, dout = None\<rparr>)],
      cell_inputs = [1], last_node = Some 2, need_propagate_stop_gradient = False\<rparr>"

definition tape_2 :: k_pynative_cell where
  "tape_2 =
     \<lparr>cell_tape = 0,
      anfnode_to_adjoin =
        [(2, \<lparr>tape = 0, users = [4], op_args = [10], out = 20, bprop_fg = Some 7, dout = None\<rparr>),
         (1, \<lparr>tape = 0, users = [2, 4], op_args = [], out = 10, bprop_fg = None, dout = None\<rparr>),
         (4, \<lparr>tape = 0, users = [], op_args = [20, 10], out = 30, bprop_fg = Some 8, dout = None\<rparr>)],
      cell_inputs = [1], last_node = Some 4, need_propagate_stop_gradient = False\<rparr>"

text \<open>
  Two forward graphs that differ at most in \<^verbatim>\<open>stop_gradient\<close> flags that are set in the
  second one, and only at the nodes \<open>N\<close>.
\<close>

definition flags_raised :: "node set \<Rightarrow> graph \<Rightarrow> graph \<Rightarrow> bool" where
  "flags_raised N g g' =
     (\<forall>x. g' x = g x \<or> (x \<in> N \<and> g' x = set_stop_gradient True (g x)))"

text \<open>
  A forward graph with a stop-gradient marker: \<open>n1 = f(p0)\<close> at address 2 is used only by
  the marker \<open>m = stop_gradient(n1)\<close> at address 6, whose callee is the value node at 5.
  \<open>tape_m\<close> is the tape after recording \<open>n1\<close> and \<open>m\<close>.
\<close>

definition graph_M :: graph where
  "graph_M =
     (\<lambda>n. Parameter)
       (0 := ValueNode (Some (OtherPrimitive ''f'')),
        2 := CNode [0, 1] False,
        5 := ValueNode (Some kPrimStopGradient),
        6 := CNode [5, 2] False)"

definition tape_m :: k_pynative_cell where
  "tape_m =
     \<lparr>cell_tape = 0,
      anfnode_to_adjoin =
        [(2, \<lparr>tape = 0, users = [6], op_args = [10], out = 20, bprop_fg = Some 7, dout = None\<rparr>),
         (1, \<lparr>tape = 0, users = [2], op_args = [], out = 10, bprop_fg = None, dout = None\<rparr>),
         (6, \<lparr>tape = 0, users = [], op_args = [20], out = 20, bprop_fg = Some 9, dout = None\<rparr>)],
      cell_inputs = [1], last_node = Some 6, need_propagate_stop_gradient = True\<rparr>"

text \<open>
  A sequence of calls of \<^verbatim>\<open>AccumulateDout\<close> on one adjoint, one for each contribution, in
  the order of the list.
\<close>

fun AccumulateDout_all ::
  "(val \<Rightarrow> func_graph option) \<Rightarrow> tape_node list \<Rightarrow> pynative_adjoint \<Rightarrow> error + pynative_adjoint" where
  "AccumulateDout_all GetHyperAdd [] adj = Inr adj"
| "AccumulateDout_all GetHyperAdd (f # fs) adj =
    (case AccumulateDout GetHyperAdd f adj of
       Inl e \<Rightarrow> Inl e
     | Inr adj1 \<Rightarrow> AccumulateDout_all GetHyperAdd fs adj1)"

text \<open>
  The value of a tape node when \<open>hyper_add\<close> is read as the addition and \<open>zeros_like\<close> as
  the zero of a commutative monoid of gradients, and the other nodes have the values \<open>\<rho>\<close>
  gives them; and the terms that a tape node adds up.
\<close>

fun denote :: "(tape_node \<Rightarrow> 'a::comm_monoid_add) \<Rightarrow> tape_node \<Rightarrow> 'a" where
  "denote \<rho> (HyperAdd f a b) = denote \<rho> a + denote \<rho> b"
| "denote \<rho> (ZerosLike f v) = 0"
| "denote \<rho> t = \<rho> t"

fun summands :: "tape_node \<Rightarrow> tape_node multiset" where
  "summands (HyperAdd f a b) = summands a + summands b"
| "summands (ZerosLike f v) = {#}"
| "summands t = {#t#}"

text \<open>
  The gradient that an adjoint holds, and the terms it holds: those of \<open>dout\<close>, or zero
  and no term while \<open>dout\<close> is null.
\<close>

definition held :: "(tape_node \<Rightarrow> 'a::comm_monoid_add) \<Rightarrow> pynative_adjoint \<Rightarrow> 'a" where
  "held \<rho> adj = (case dout adj of None \<Rightarrow> 0 | Some d \<Rightarrow> denote \<rho> d)"

definition held_terms :: "pynative_adjoint \<Rightarrow> tape_node multiset" where
  "held_terms adj = (case dout adj of None \<Rightarrow> {#} | Some d \<Rightarrow> summands d)"

text \<open>
  The two contributions that reach \<open>p0\<close> in scenario B, from the backward calls of \<open>n2\<close> and
  of \<open>n1\<close>; the adjoint of \<open>p0\<close>; lookups that always find their graph; and values for the
  two contributions.
\<close>

definition din_n2 :: tape_node where
  "din_n2 = TupleGetItem (TapeCNode 2) 1"

definition din_n1 :: tape_node where
  "din_n1 = TupleGetItem (TapeCNode 1) 0"

definition adjoint_p0 :: pynative_adjoint where
  "adjoint_p0 = \<lparr>tape = 0, users = [2, 4], op_args = [], out = 10, bprop_fg = None, dout = None\<rparr>"

definition hyper_add_77 :: "val \<Rightarrow> func_graph option" where
  "hyper_add_77 v = Some 77"

definition zeros_like_78 :: "val \<Rightarrow> func_graph option" where
  "zeros_like_78 v = Some 78"

definition rho_34 :: "tape_node \<Rightarrow> int" where
  "rho_34 t = (if t = din_n2 then 3 else if t = din_n1 then 4 else 0)"

section \<open>Properties of the actor runtime\<close>

lemma map_of_emplace_back:
  "map_of (emplace_back k v m) k' = (if k' = k then Some (at_default m k @ [v]) else map_of m k')"
  by (simp add: emplace_back_def update_conv')

lemma at_default_emplace_back:
  "at_default (emplace_back k v m) k' = (if k' = k then at_default m k @ [v] else at_default m k')"
  by (simp add: at_default_def map_of_emplace_back)

lemma emit_Inr [simp]: "emit evs (Inr (x, evs')) = Inr (x, evs @ evs')"
  by (simp add: emit_def)

lemma emit_Inl [simp]: "emit evs (Inl e) = Inl e"
  by (simp add: emit_def)

lemma emit_emit [simp]: "emit evs (emit evs' r) = emit (evs @ evs') r"
  by (cases r) (auto simp: emit_def)

lemma emit_Nil [simp]: "emit [] r = r"
  by (cases r) (auto simp: emit_def)

lemma check_data_short:
  assumes "length (at_default (input_op_datas a) (sequential_num ctx)) < input_datas_num a"
  shows "CheckRunningCondition (Some ctx) a = Inr (False, [])"
  using assms by (auto simp: CheckRunningCondition_def at_default_def split: option.splits)

lemma check_data_excess:
  assumes "input_datas_num a \<noteq> 0"
    and "length (at_default (input_op_datas a) (sequential_num ctx)) > input_datas_num a"
  shows "CheckRunningCondition (Some ctx) a =
    Inr (False, [LogErrorInvalidInputDataNum (length (at_default (input_op_datas a) (sequential_num ctx)))
                   (input_datas_num a)])"
  using assms by (auto simp: CheckRunningCondition_def at_default_def split: option.splits)

lemma check_ready:
  assumes "input_datas_num a = 0 \<or> length (at_default (input_op_datas a) (sequential_num ctx)) = input_datas_num a"
    and "input_controls_num a = 0 \<or> length (at_default (input_op_controls a) (sequential_num ctx)) = input_controls_num a"
  shows "CheckRunningCondition (Some ctx) a = Inr (True, [])"
  using assms by (auto simp: CheckRunningCondition_def at_default_def split: option.splits)

lemma RunOpData_valid:
  assumes "valid_data d"
  shows "RunOpData run (Some d) (Some ctx) a =
    (let a1 = a\<lparr>input_op_datas := emplace_back (sequential_num ctx) d (input_op_datas a)\<rparr>
     in case CheckRunningCondition (Some ctx) a1 of
          Inl e \<Rightarrow> Inl e
        | Inr (is_run, evs) \<Rightarrow>
            if is_run then emit (evs @ [LogDebugRunningCondition True]) (run ctx a1)
            else Inr (a1, evs @ [LogDebugRunningCondition False]))"
  using assms by (auto simp: RunOpData_def valid_data_def Let_def split: option.splits sum.splits)

lemma received_Nil [simp]: "received ctx [] a = a"
  by (simp add: received_def)

lemma received_Cons:
  "received ctx (d # ds) a =
     received ctx ds (a\<lparr>input_op_datas := emplace_back (sequential_num ctx) d (input_op_datas a)\<rparr>)"
  by (simp add: received_def)

lemma received_snoc:
  "received ctx (ds @ [d]) a =
     (received ctx ds a)\<lparr>input_op_datas :=
        emplace_back (sequential_num ctx) d (input_op_datas (received ctx ds a))\<rparr>"
  by (simp add: received_def)

lemma at_default_foldl_emplace_back:
  "at_default (foldl (\<lambda>m d. emplace_back k d m) m ds) k' =
     (if k' = k then at_default m k @ ds else at_default m k')"
  by (induction ds arbitrary: m) (simp_all add: at_default_emplace_back)

lemma received_pending:
  "at_default (input_op_datas (received ctx ds a)) r =
     (if r = sequential_num ctx then at_default (input_op_datas a) r @ ds
      else at_default (input_op_datas a) r)"
  by (simp add: received_def at_default_foldl_emplace_back)

lemma received_fields [simp]:
  "input_datas_num (received ctx ds a) = input_datas_num a"
  "input_controls_num (received ctx ds a) = input_controls_num a"
  "input_op_controls (received ctx ds a) = input_op_controls a"
  by (simp_all add: received_def)

lemma run_each_not_ready:
  assumes "length (at_default (input_op_datas a) (sequential_num ctx)) + length ds < input_datas_num a"
    and "\<forall>d \<in> set ds. \<exists>p. data d = Some (Some p)"
  shows "run_each run (map Some ds) (Some ctx) a =
           Inr (received ctx ds a, replicate (length ds) (LogDebugRunningCondition False))"
  using assms
proof (induction ds arbitrary: a)
  case Nil
  show ?case by simp
next
  case (Cons d ds)
  let ?a1 = "a\<lparr>input_op_datas := emplace_back (sequential_num ctx) d (input_op_datas a)\<rparr>"
  from Cons.prems have v: "valid_data d"
    by (auto simp: valid_data_def)
  have short: "length (at_default (input_op_datas ?a1) (sequential_num ctx)) < input_datas_num ?a1"
    using Cons.prems(1) by (simp add: at_default_emplace_back)
  have step: "RunOpData run (Some d) (Some ctx) a = Inr (?a1, [LogDebugRunningCondition False])"
    by (simp add: RunOpData_valid [OF v] check_data_short [OF short])
  have rest: "run_each run (map Some ds) (Some ctx) ?a1 =
      Inr (received ctx ds ?a1, replicate (length ds) (LogDebugRunningCondition False))"
    using Cons.prems by (intro Cons.IH) (simp_all add: at_default_emplace_back)
  show ?case
    by (simp add: step rest received_Cons)
qed

lemma run_each_append:
  "run_each run (xs @ ys) context a =
     (case run_each run xs context a of
        Inl e \<Rightarrow> Inl e
      | Inr (a1, evs) \<Rightarrow> emit evs (run_each run ys context a1))"
proof (induction xs arbitrary: a)
  case Nil
  show ?case by simp
next
  case (Cons x xs)
  show ?case
  proof (cases "RunOpData run x context a")
    case (Inl e)
    then show ?thesis by simp
  next
    case (Inr r)
    obtain a1 evs1 where r: "r = (a1, evs1)" by (cases r)
    show ?thesis
      by (cases "run_each run xs context a1") (auto simp: Inr r Cons.IH)
  qed
qed

lemma run_each_single:
  "run_each run [x] context a = RunOpData run x context a"
  by (cases "RunOpData run x context a") auto

lemma run_each_last_fires:
  assumes "0 < input_datas_num a"
    and "length (at_default (input_op_datas a) (sequential_num ctx)) + length ds = input_datas_num a"
    and "ds \<noteq> []"
    and "\<forall>x \<in> set ds. \<exists>p. data x = Some (Some p)"
    and "input_controls_num a = 0 \<or>
         length (at_default (input_op_controls a) (sequential_num ctx)) = input_controls_num a"
  shows "run_each run (map Some ds) (Some ctx) a =
    emit (replicate (length ds - 1) (LogDebugRunningCondition False) @ [LogDebugRunningCondition True])
      (run ctx (received ctx ds a))"
proof -
  from assms(3) obtain ys y where ds: "ds = ys @ [y]"
    by (metis rev_exhaust)
  have v: "valid_data y"
    using assms(4) ds by (auto simp: valid_data_def)
  have first: "run_each run (map Some ys) (Some ctx) a =
      Inr (received ctx ys a, replicate (length ys) (LogDebugRunningCondition False))"
    using assms(2,4) ds by (intro run_each_not_ready) auto
  have chk: "CheckRunningCondition (Some ctx) (received ctx (ys @ [y]) a) = Inr (True, [])"
    using assms(1,2,5) ds by (intro check_ready) (simp_all add: received_pending)
  have last: "RunOpData run (Some y) (Some ctx) (received ctx ys a) =
      emit [LogDebugRunningCondition True] (run ctx (received ctx (ys @ [y]) a))"
    using chk by (simp add: RunOpData_valid [OF v] received_snoc [symmetric])
  show ?thesis
    using run_each_single [of run "Some y" "Some ctx" "received ctx ys a"]
    by (simp add: ds run_each_append first last)
qed

lemma check_controls_absent:
  assumes "input_controls_num a \<noteq> 0"
    and "map_of (input_op_controls a) (sequential_num ctx) = None"
    and "input_datas_num a = 0 \<or>
         length (at_default (input_op_datas a) (sequential_num ctx)) = input_datas_num a"
  shows "CheckRunningCondition (Some ctx) a = Inr (False, [])"
  using assms by (auto simp: CheckRunningCondition_def at_default_def split: option.splits)

lemma EraseInput_ready:
  assumes "input_datas_num s \<noteq> 0"
    and "at_default (input_op_datas s) (sequential_num ctx) \<noteq> []"
    and "input_controls_num s = 0 \<or>
         length (at_default (input_op_controls s) (sequential_num ctx)) = input_controls_num s"
  shows "EraseInput (Some ctx) s =
    Inr (s\<lparr>input_op_datas := AList.delete (sequential_num ctx) (input_op_datas s),
           input_op_controls :=
             (if input_controls_num s \<noteq> 0
              then AList.delete (sequential_num ctx) (input_op_controls s)
              else input_op_controls s)\<rparr>, [])"
proof -
  from assms(2) obtain xs where d: "map_of (input_op_datas s) (sequential_num ctx) = Some xs"
    by (auto simp: at_default_def split: option.splits)
  then have dne: "input_op_datas s \<noteq> []"
    by auto
  show ?thesis
  proof (cases "input_controls_num s = 0")
    case True
    with assms(1) d dne show ?thesis
      by (simp add: EraseInput_def Let_def)
  next
    case False
    with assms(3) obtain cs where c: "map_of (input_op_controls s) (sequential_num ctx) = Some cs"
      by (auto simp: at_default_def split: option.splits)
    then have cne: "input_op_controls s \<noteq> []"
      by auto
    from False assms(1) d dne c cne show ?thesis
      by (simp add: EraseInput_def Let_def)
  qed
qed

lemma run_each_snoc:
  "run_each run (xs @ [x]) context a =
     (case run_each run xs context a of
        Inl e \<Rightarrow> Inl e
      | Inr (a1, evs) \<Rightarrow> emit evs (RunOpData run x context a1))"
  unfolding run_each_append run_each_single ..

lemma RunOpData_excess:
  assumes "data d = Some (Some p)" and "input_datas_num b \<noteq> 0"
    and "input_datas_num b \<le> length (at_default (input_op_datas b) (sequential_num ctx))"
  shows "RunOpData run (Some d) (Some ctx) b =
    Inr (b\<lparr>input_op_datas := emplace_back (sequential_num ctx) d (input_op_datas b)\<rparr>,
         [LogErrorInvalidInputDataNum
            (length (at_default (input_op_datas b) (sequential_num ctx)) + 1) (input_datas_num b),
          LogDebugRunningCondition False])"
proof -
  let ?b1 = "b\<lparr>input_op_datas := emplace_back (sequential_num ctx) d (input_op_datas b)\<rparr>"
  have v: "valid_data d"
    using assms(1) by (simp add: valid_data_def)
  have "CheckRunningCondition (Some ctx) ?b1 =
      Inr (False, [LogErrorInvalidInputDataNum
                     (length (at_default (input_op_datas b) (sequential_num ctx)) + 1)
                     (input_datas_num b)])"
    using check_data_excess [of ?b1 ctx] assms(2,3) by (simp add: at_default_emplace_back)
  then show ?thesis
    by (simp add: RunOpData_valid [OF v])
qed

text \<open>
  C1, as amended (exact-arity firing). An actor needs \<open>k > 0\<close> data messages and holds none
  for the run; the messages are delivered one after the other, each delivery starting from the
  state that the one before left, and \<^verbatim>\<open>Run\<close> is any body.

  \<^enum> Delivering fewer than \<open>k\<close> messages never calls \<^verbatim>\<open>Run\<close>, whatever the controls are:
    every delivery only appends the message and logs a negative readiness check.
  \<^enum> With the required controls complete, the \<open>k\<close>-th delivery makes the readiness check
    true and calls \<^verbatim>\<open>Run\<close> once, on the actor holding the \<open>k\<close> messages; no earlier delivery
    of the sequence calls it.
  \<^enum> If that call of \<^verbatim>\<open>Run\<close> returns an actor that still needs \<open>k\<close> messages and still
    holds \<open>k\<close> or more for the run, the next delivery logs the error "invalid input data num", the readiness check is
    false and \<^verbatim>\<open>Run\<close> is not called again.
  \<^enum> If \<^verbatim>\<open>Run\<close> erases the inputs of the run, as \<open>run_erase\<close> does, the firing leaves no
    pending data for the run, and the next delivery starts a new pending list and logs no
    error: the readiness check is false when \<open>k > 1\<close> or controls are required, and when
    \<open>k = 1\<close> and no control is required the actor fires a second time.
\<close>

theorem exact_arity_firing:
  assumes "input_datas_num a = k" and "0 < k"
    and "map_of (input_op_datas a) (sequential_num ctx) = None"
    and "\<forall>x \<in> set ds. \<exists>p. data x = Some (Some p)"
    and "data d = Some (Some p)" and "data d' = Some (Some p')"
  shows "(length ds < k \<longrightarrow>
            run_each run (map Some ds) (Some ctx) a =
              Inr (received ctx ds a, replicate (length ds) (LogDebugRunningCondition False)))
       \<and> (length ds + 1 = k \<and>
            (input_controls_num a = 0 \<or>
             length (at_default (input_op_controls a) (sequential_num ctx)) = input_controls_num a) \<longrightarrow>
            CheckRunningCondition (Some ctx) (received ctx (ds @ [d]) a) = Inr (True, []) \<and>
            RunOpData run (Some d) (Some ctx) (received ctx ds a) =
              emit [LogDebugRunningCondition True] (run ctx (received ctx (ds @ [d]) a)) \<and>
            run_each run (map Some (ds @ [d])) (Some ctx) a =
              emit (replicate (length ds) (LogDebugRunningCondition False)
                    @ [LogDebugRunningCondition True])
                (run ctx (received ctx (ds @ [d]) a)))
       \<and> (length ds + 1 = k \<and>
            (input_controls_num a = 0 \<or>
             length (at_default (input_op_controls a) (sequential_num ctx)) = input_controls_num a) \<and>
            run ctx (received ctx (ds @ [d]) a) = Inr (b, evs) \<and>
            input_datas_num b = k \<and>
            k \<le> length (at_default (input_op_datas b) (sequential_num ctx)) \<longrightarrow>
            run_each run (map Some (ds @ [d, d'])) (Some ctx) a =
              Inr (b\<lparr>input_op_datas := emplace_back (sequential_num ctx) d' (input_op_datas b)\<rparr>,
                   replicate (length ds) (LogDebugRunningCondition False)
                   @ [LogDebugRunningCondition True] @ evs
                   @ [LogErrorInvalidInputDataNum
                        (length (at_default (input_op_datas b) (sequential_num ctx)) + 1) k,
                      LogDebugRunningCondition False]))
       \<and> (length ds + 1 = k \<and>
            (input_controls_num a = 0 \<or>
             length (at_default (input_op_controls a) (sequential_num ctx)) = input_controls_num a) \<longrightarrow>
            (\<exists>c. run_each run_erase (map Some (ds @ [d])) (Some ctx) a =
                   Inr (c, replicate (length ds) (LogDebugRunningCondition False)
                           @ [LogDebugRunningCondition True]) \<and>
                 map_of (input_op_datas c) (sequential_num ctx) = None \<and>
                 (1 < k \<or> input_controls_num a \<noteq> 0 \<longrightarrow>
                    run_each run_erase (map Some (ds @ [d, d'])) (Some ctx) a =
                      Inr (c\<lparr>input_op_datas :=
                               emplace_back (sequential_num ctx) d' (input_op_datas c)\<rparr>,
                           replicate (length ds) (LogDebugRunningCondition False)
                           @ [LogDebugRunningCondition True, LogDebugRunningCondition False])) \<and>
                 (k = 1 \<and> input_controls_num a = 0 \<longrightarrow>
                    (\<exists>c2. run_each run_erase (map Some (ds @ [d, d'])) (Some ctx) a =
                            Inr (c2, [LogDebugRunningCondition True, LogDebugRunningCondition True]) \<and>
                          map_of (input_op_datas c2) (sequential_num ctx) = None))))"
proof -
  let ?r = "sequential_num ctx"
  let ?F = "LogDebugRunningCondition False"
  let ?T = "LogDebugRunningCondition True"
  let ?ak = "received ctx (ds @ [d]) a"
  let ?ready = "input_controls_num a = 0 \<or>
      length (at_default (input_op_controls a) ?r) = input_controls_num a"
  have none: "at_default (input_op_datas a) ?r = []"
    using assms(3) by (simp add: at_default_def)
  have v: "valid_data d" and v': "valid_data d'"
    using assms(5,6) by (simp_all add: valid_data_def)
  have pend: "at_default (input_op_datas ?ak) ?r = ds @ [d]"
    by (simp add: received_pending none)
  have one: "length ds < k \<longrightarrow>
      run_each run (map Some ds) (Some ctx) a = Inr (received ctx ds a, replicate (length ds) ?F)"
    using run_each_not_ready [of a ctx ds run] assms(1,4) by (simp add: none)
  have fire: "run_each f (map Some (ds @ [d])) (Some ctx) a =
      emit (replicate (length ds) ?F @ [?T]) (f ctx ?ak)"
    if "length ds + 1 = k" and ?ready for f
    using run_each_last_fires [of a ctx "ds @ [d]" f] that assms(1,2,4,5)
    by (auto simp: none)
  have two: "CheckRunningCondition (Some ctx) ?ak = Inr (True, []) \<and>
      RunOpData run (Some d) (Some ctx) (received ctx ds a) = emit [?T] (run ctx ?ak) \<and>
      run_each run (map Some (ds @ [d])) (Some ctx) a =
        emit (replicate (length ds) ?F @ [?T]) (run ctx ?ak)"
    if len: "length ds + 1 = k" and ctl: ?ready
  proof -
    have chk: "CheckRunningCondition (Some ctx) ?ak = Inr (True, [])"
      using len ctl assms(1) by (intro check_ready) (simp_all add: pend)
    then have "RunOpData run (Some d) (Some ctx) (received ctx ds a) = emit [?T] (run ctx ?ak)"
      by (simp add: RunOpData_valid [OF v] received_snoc [symmetric])
    with chk fire [OF len ctl] show ?thesis by blast
  qed
  have step: "run_each f (map Some (ds @ [d, d'])) (Some ctx) a =
      (case run_each f (map Some (ds @ [d])) (Some ctx) a of
         Inl e \<Rightarrow> Inl e
       | Inr (a1, es) \<Rightarrow> emit es (RunOpData f (Some d') (Some ctx) a1))" for f
    using run_each_snoc [of f "map Some (ds @ [d])" "Some d'" "Some ctx" a] by simp
  have three: "run_each run (map Some (ds @ [d, d'])) (Some ctx) a =
      Inr (b\<lparr>input_op_datas := emplace_back ?r d' (input_op_datas b)\<rparr>,
           replicate (length ds) ?F @ [?T] @ evs
           @ [LogErrorInvalidInputDataNum (length (at_default (input_op_datas b) ?r) + 1) k, ?F])"
    if len: "length ds + 1 = k" and ctl: ?ready
      and rn: "run ctx ?ak = Inr (b, evs)" and kb: "input_datas_num b = k"
      and kept: "k \<le> length (at_default (input_op_datas b) ?r)"
  proof -
    have f1: "run_each run (map Some (ds @ [d])) (Some ctx) a =
        Inr (b, replicate (length ds) ?F @ [?T] @ evs)"
      using fire [OF len ctl, of run] rn by simp
    have f2: "RunOpData run (Some d') (Some ctx) b =
        Inr (b\<lparr>input_op_datas := emplace_back ?r d' (input_op_datas b)\<rparr>,
             [LogErrorInvalidInputDataNum (length (at_default (input_op_datas b) ?r) + 1) k, ?F])"
      using RunOpData_excess [OF assms(6), of b ctx run] kb kept assms(2) by simp
    show ?thesis
      unfolding step f1 by (simp add: f2)
  qed
  have four: "\<exists>c. run_each run_erase (map Some (ds @ [d])) (Some ctx) a =
                   Inr (c, replicate (length ds) ?F @ [?T]) \<and>
      map_of (input_op_datas c) ?r = None \<and>
      (1 < k \<or> input_controls_num a \<noteq> 0 \<longrightarrow>
         run_each run_erase (map Some (ds @ [d, d'])) (Some ctx) a =
           Inr (c\<lparr>input_op_datas := emplace_back ?r d' (input_op_datas c)\<rparr>,
                replicate (length ds) ?F @ [?T, ?F])) \<and>
      (k = 1 \<and> input_controls_num a = 0 \<longrightarrow>
         (\<exists>c2. run_each run_erase (map Some (ds @ [d, d'])) (Some ctx) a = Inr (c2, [?T, ?T]) \<and>
               map_of (input_op_datas c2) ?r = None))"
    if len: "length ds + 1 = k" and ctl: ?ready
  proof -
    let ?c = "?ak\<lparr>input_op_datas := AList.delete ?r (input_op_datas ?ak),
                input_op_controls :=
                  (if input_controls_num ?ak \<noteq> 0
                   then AList.delete ?r (input_op_controls ?ak)
                   else input_op_controls ?ak)\<rparr>"
    let ?c1 = "?c\<lparr>input_op_datas := emplace_back ?r d' (input_op_datas ?c)\<rparr>"
    have er: "run_erase ctx ?ak = Inr (?c, [])"
      unfolding run_erase_def
      using assms(1,2) ctl by (intro EraseInput_ready) (simp_all add: pend)
    have f1: "run_each run_erase (map Some (ds @ [d])) (Some ctx) a =
        Inr (?c, replicate (length ds) ?F @ [?T])"
      using fire [OF len ctl, of run_erase] er by simp
    have gone: "map_of (input_op_datas ?c) ?r = None"
      by (simp add: delete_conv')
    have kc: "input_datas_num ?c1 = k" "input_controls_num ?c1 = input_controls_num a"
      using assms(1) by simp_all
    have p0: "at_default (input_op_datas ?c) ?r = []"
      using gone by (simp add: at_default_def)
    have p1: "at_default (input_op_datas ?c1) ?r = [d']"
      using at_default_emplace_back [of ?r d' "input_op_datas ?c" ?r] p0 by simp
    note p1' = p1 [simplified]
    have quiet: "run_each run_erase (map Some (ds @ [d, d'])) (Some ctx) a =
        Inr (?c1, replicate (length ds) ?F @ [?T, ?F])"
      if "1 < k \<or> input_controls_num a \<noteq> 0"
    proof -
      have "CheckRunningCondition (Some ctx) ?c1 = Inr (False, [])"
      proof (cases "1 < k")
        case True
        then show ?thesis
          using kc(1) by (intro check_data_short) (simp add: p1')
      next
        case False
        with that assms(2) have k1: "k = 1" and cn: "input_controls_num a \<noteq> 0"
          by auto
        have "map_of (input_op_controls ?c1) ?r = None"
          using cn by (simp add: delete_conv')
        then show ?thesis
          using cn k1 kc by (intro check_controls_absent) (simp_all add: p1')
      qed
      then have "RunOpData run_erase (Some d') (Some ctx) ?c = Inr (?c1, [?F])"
        by (simp add: RunOpData_valid [OF v'])
      then show ?thesis
        unfolding step f1 by simp
    qed
    have again: "\<exists>c2. run_each run_erase (map Some (ds @ [d, d'])) (Some ctx) a = Inr (c2, [?T, ?T]) \<and>
        map_of (input_op_datas c2) ?r = None"
      if k1: "k = 1" and c0: "input_controls_num a = 0"
    proof -
      let ?c2 = "?c1\<lparr>input_op_datas := AList.delete ?r (input_op_datas ?c1),
                  input_op_controls :=
                    (if input_controls_num ?c1 \<noteq> 0
                     then AList.delete ?r (input_op_controls ?c1)
                     else input_op_controls ?c1)\<rparr>"
      have chk: "CheckRunningCondition (Some ctx) ?c1 = Inr (True, [])"
        using k1 c0 kc by (intro check_ready) (simp_all add: p1')
      have er2: "run_erase ctx ?c1 = Inr (?c2, [])"
        unfolding run_erase_def
        using k1 c0 kc by (intro EraseInput_ready) (simp_all add: p1')
      have r2: "RunOpData run_erase (Some d') (Some ctx) ?c = Inr (?c2, [?T])"
        using chk er2 by (simp add: RunOpData_valid [OF v'])
      have l0: "length ds = 0"
        using len k1 by simp
      have "run_each run_erase (map Some (ds @ [d, d'])) (Some ctx) a = Inr (?c2, [?T, ?T])"
        unfolding step f1 using r2 l0 by simp
      moreover have "map_of (input_op_datas ?c2) ?r = None"
        by (simp add: delete_conv')
      ultimately show ?thesis by blast
    qed
    show ?thesis
    proof (intro exI [of _ ?c] conjI)
      show "run_each run_erase (map Some (ds @ [d])) (Some ctx) a =
          Inr (?c, replicate (length ds) ?F @ [?T])"
        by (rule f1)
      show "map_of (input_op_datas ?c) ?r = None"
        by (rule gone)
      show "1 < k \<or> input_controls_num a \<noteq> 0 \<longrightarrow>
          run_each run_erase (map Some (ds @ [d, d'])) (Some ctx) a =
            Inr (?c1, replicate (length ds) ?F @ [?T, ?F])"
        using quiet by blast
      show "k = 1 \<and> input_controls_num a = 0 \<longrightarrow>
          (\<exists>c2. run_each run_erase (map Some (ds @ [d, d'])) (Some ctx) a = Inr (c2, [?T, ?T]) \<and>
                map_of (input_op_datas c2) ?r = None)"
        using again by blast
    qed
  qed
  from one two three four show ?thesis by blast
qed


theorem exact_arity_firing_witness:
  "run_each run_nothing (map Some [msg1]) (Some run7) actor_X =
     Inr (received run7 [msg1] actor_X, [LogDebugRunningCondition False])
   \<and> CheckRunningCondition (Some run7) (received run7 [msg1, msg2] actor_X) = Inr (True, [])
   \<and> RunOpData run_nothing (Some msg2) (Some run7) (received run7 [msg1] actor_X) =
       Inr (received run7 [msg1, msg2] actor_X, [LogDebugRunningCondition True])
   \<and> run_each run_nothing (map Some [msg1, msg2, msg3]) (Some run7) actor_X =
       Inr (received run7 [msg1, msg2, msg3] actor_X,
            [LogDebugRunningCondition False, LogDebugRunningCondition True,
             LogErrorInvalidInputDataNum 3 2, LogDebugRunningCondition False])
   \<and> run_each run_erase (map Some [msg1, msg2]) (Some run7) actor_X =
       Inr (actor_X, [LogDebugRunningCondition False, LogDebugRunningCondition True])
   \<and> run_each run_erase (map Some [msg1, msg2, msg3]) (Some run7) actor_X =
       Inr (received run7 [msg3] actor_X,
            [LogDebugRunningCondition False, LogDebugRunningCondition True,
             LogDebugRunningCondition False])
   \<and> run_each run_erase (map Some [msg1, msg2]) (Some run7) (actor_X\<lparr>input_datas_num := 1\<rparr>) =
       Inr (actor_X\<lparr>input_datas_num := 1\<rparr>,
            [LogDebugRunningCondition True, LogDebugRunningCondition True])"
  using exact_arity_firing [where a = actor_X and k = 2 and ctx = run7 and ds = "[msg1]"
      and d = msg2 and p = 200 and d' = msg3 and p' = 300 and run = run_nothing
      and b = "received run7 [msg1, msg2] actor_X" and evs = "[]"]
    exact_arity_firing [where a = "actor_X\<lparr>input_datas_num := 1\<rparr>" and k = 1 and ctx = run7
      and ds = "[]" and d = msg1 and p = 100 and d' = msg2 and p' = 200 and run = run_nothing
      and b = "received run7 [msg1] (actor_X\<lparr>input_datas_num := 1\<rparr>)" and evs = "[]"]
  by (simp add: actor_X_def msg1_def msg2_def msg3_def run7_def run_nothing_def run_erase_def
      received_def emplace_back_def at_default_def EraseInput_def RunOpData_def
      CheckRunningCondition_def Let_def emit_def)

text \<open>
  Counterexample to C1 as stated. With a \<^verbatim>\<open>Run\<close> that erases the inputs of the run,
  \<open>actor_X\<close> (which needs two data messages) fires on the second message of run 7 and is
  left without pending data; the third message is appended, the readiness check is false
  and no error is logged. The same actor with a requirement of one message fires on the
  first message and fires again on the second.
\<close>

theorem erased_inputs_no_error_counterexample:
  "run_erase run7 (received run7 [msg1, msg2] actor_X) = Inr (actor_X, [])
   \<and> RunOpData run_erase (Some msg2) (Some run7) (received run7 [msg1] actor_X) =
       Inr (actor_X, [LogDebugRunningCondition True])
   \<and> RunOpData run_erase (Some msg3) (Some run7) actor_X =
       Inr (received run7 [msg3] actor_X, [LogDebugRunningCondition False])
   \<and> RunOpData run_erase (Some msg1) (Some run7) (actor_X\<lparr>input_datas_num := 1\<rparr>) =
       Inr (actor_X\<lparr>input_datas_num := 1\<rparr>, [LogDebugRunningCondition True])
   \<and> RunOpData run_erase (Some msg2) (Some run7) (actor_X\<lparr>input_datas_num := 1\<rparr>) =
       Inr (actor_X\<lparr>input_datas_num := 1\<rparr>, [LogDebugRunningCondition True])"
  by (simp add: actor_X_def msg1_def msg2_def msg3_def run7_def run_erase_def
      received_def emplace_back_def at_default_def EraseInput_def RunOpData_def
      CheckRunningCondition_def Let_def emit_def)

lemma check_control_excess:
  assumes "input_datas_num a = 0 \<or>
      length (at_default (input_op_datas a) (sequential_num ctx)) = input_datas_num a"
    and "input_controls_num a \<noteq> 0"
    and "length (at_default (input_op_controls a) (sequential_num ctx)) > input_controls_num a"
  shows "CheckRunningCondition (Some ctx) a =
    Inr (False, [LogErrorInvalidInputControlNum
                   (length (at_default (input_op_controls a) (sequential_num ctx)))
                   (input_controls_num a)])"
  using assms by (auto simp: CheckRunningCondition_def at_default_def split: option.splits)

lemma check_ignores_data:
  assumes "input_datas_num a = 0"
  shows "CheckRunningCondition (Some ctx) (a\<lparr>input_op_datas := m\<rparr>) = CheckRunningCondition (Some ctx) a"
  using assms by (simp add: CheckRunningCondition_def cong: option.case_cong if_cong)

lemma check_ignores_controls:
  assumes "input_controls_num a = 0"
  shows "CheckRunningCondition (Some ctx) (a\<lparr>input_op_controls := m\<rparr>) = CheckRunningCondition (Some ctx) a"
  using assms by (simp add: CheckRunningCondition_def cong: option.case_cong if_cong)

text \<open>
  C4, as amended. A declared count that is not zero is checked: when a delivery finds the
  pending data of the run already at (or above) that count, or the pending controls at (or
  above) theirs with the data complete or not required, the readiness check logs the error
  "invalid input num" and returns false, and the delivering call keeps the message in the
  pending list, does not call \<^verbatim>\<open>Run\<close> (so this actor sends nothing downstream) and produces
  log lines only. A declared count of zero is not checked at all: the readiness check does
  not look at the messages that arrive for it, nothing is logged, and the delivery fires the
  actor when the other count is met. The error path sets no failure in the context of the
  run.
\<close>

theorem excess_is_logged_not_recorded:
  assumes "data d = Some (Some p)"
  shows "(input_datas_num a \<noteq> 0 \<and>
          input_datas_num a \<le> length (at_default (input_op_datas a) (sequential_num ctx)) \<longrightarrow>
            RunOpData run (Some d) (Some ctx) a =
              Inr (a\<lparr>input_op_datas := emplace_back (sequential_num ctx) d (input_op_datas a)\<rparr>,
                   [LogErrorInvalidInputDataNum
                      (length (at_default (input_op_datas a) (sequential_num ctx)) + 1)
                      (input_datas_num a),
                    LogDebugRunningCondition False]))
       \<and> ((input_datas_num a = 0 \<or>
           length (at_default (input_op_datas a) (sequential_num ctx)) = input_datas_num a) \<and>
          input_controls_num a \<noteq> 0 \<and>
          input_controls_num a \<le> length (at_default (input_op_controls a) (sequential_num ctx)) \<longrightarrow>
            RunOpControl run c (Some ctx) a =
              Inr (a\<lparr>input_op_controls := emplace_back (sequential_num ctx) c (input_op_controls a)\<rparr>,
                   [LogErrorInvalidInputControlNum
                      (length (at_default (input_op_controls a) (sequential_num ctx)) + 1)
                      (input_controls_num a),
                    LogDebugRunningCondition False]))
       \<and> \<not> records_failure
             [LogErrorInvalidInputDataNum
                (length (at_default (input_op_datas a) (sequential_num ctx)) + 1) (input_datas_num a),
              LogDebugRunningCondition False]
       \<and> \<not> records_failure
             [LogErrorInvalidInputControlNum
                (length (at_default (input_op_controls a) (sequential_num ctx)) + 1)
                (input_controls_num a),
              LogDebugRunningCondition False]
       \<and> (input_datas_num a = 0 \<longrightarrow>
            CheckRunningCondition (Some ctx)
              (a\<lparr>input_op_datas := emplace_back (sequential_num ctx) d (input_op_datas a)\<rparr>) =
            CheckRunningCondition (Some ctx) a)
       \<and> (input_datas_num a = 0 \<and>
          (input_controls_num a = 0 \<or>
           length (at_default (input_op_controls a) (sequential_num ctx)) = input_controls_num a) \<longrightarrow>
            RunOpData run (Some d) (Some ctx) a =
              emit [LogDebugRunningCondition True]
                (run ctx (a\<lparr>input_op_datas := emplace_back (sequential_num ctx) d (input_op_datas a)\<rparr>)))
       \<and> (input_controls_num a = 0 \<longrightarrow>
            CheckRunningCondition (Some ctx)
              (a\<lparr>input_op_controls := emplace_back (sequential_num ctx) c (input_op_controls a)\<rparr>) =
            CheckRunningCondition (Some ctx) a)
       \<and> (input_controls_num a = 0 \<and>
          (input_datas_num a = 0 \<or>
           length (at_default (input_op_datas a) (sequential_num ctx)) = input_datas_num a) \<longrightarrow>
            RunOpControl run c (Some ctx) a =
              emit [LogDebugRunningCondition True]
                (run ctx (a\<lparr>input_op_controls := emplace_back (sequential_num ctx) c (input_op_controls a)\<rparr>)))"
proof -
  let ?r = "sequential_num ctx"
  let ?a1 = "a\<lparr>input_op_datas := emplace_back ?r d (input_op_datas a)\<rparr>"
  let ?a2 = "a\<lparr>input_op_controls := emplace_back ?r c (input_op_controls a)\<rparr>"
  have v: "valid_data d"
    using assms by (simp add: valid_data_def)
  have one: "RunOpData run (Some d) (Some ctx) a =
      Inr (?a1, [LogErrorInvalidInputDataNum (length (at_default (input_op_datas a) ?r) + 1)
                   (input_datas_num a), LogDebugRunningCondition False])"
    if "input_datas_num a \<noteq> 0" and "input_datas_num a \<le> length (at_default (input_op_datas a) ?r)"
  proof -
    have "CheckRunningCondition (Some ctx) ?a1 =
        Inr (False, [LogErrorInvalidInputDataNum (length (at_default (input_op_datas a) ?r) + 1)
                       (input_datas_num a)])"
      using check_data_excess [of ?a1 ctx] that by (simp add: at_default_emplace_back)
    then show ?thesis
      by (simp add: RunOpData_valid [OF v])
  qed
  have two: "RunOpControl run c (Some ctx) a =
      Inr (?a2, [LogErrorInvalidInputControlNum (length (at_default (input_op_controls a) ?r) + 1)
                   (input_controls_num a), LogDebugRunningCondition False])"
    if "input_datas_num a = 0 \<or> length (at_default (input_op_datas a) ?r) = input_datas_num a"
      and "input_controls_num a \<noteq> 0"
      and "input_controls_num a \<le> length (at_default (input_op_controls a) ?r)"
  proof -
    have "CheckRunningCondition (Some ctx) ?a2 =
        Inr (False, [LogErrorInvalidInputControlNum (length (at_default (input_op_controls a) ?r) + 1)
                       (input_controls_num a)])"
      using check_control_excess [of ?a2 ctx] that by (simp add: at_default_emplace_back)
    then show ?thesis
      by (simp add: RunOpControl_def)
  qed
  have three: "CheckRunningCondition (Some ctx) ?a1 = CheckRunningCondition (Some ctx) a"
    if "input_datas_num a = 0"
    using that by (rule check_ignores_data)
  have four: "RunOpData run (Some d) (Some ctx) a = emit [LogDebugRunningCondition True] (run ctx ?a1)"
    if z: "input_datas_num a = 0"
      and ctl: "input_controls_num a = 0 \<or>
        length (at_default (input_op_controls a) ?r) = input_controls_num a"
  proof -
    have "CheckRunningCondition (Some ctx) ?a1 = Inr (True, [])"
      using z ctl by (intro check_ready) simp_all
    then show ?thesis
      by (simp add: RunOpData_valid [OF v])
  qed
  have five: "CheckRunningCondition (Some ctx) ?a2 = CheckRunningCondition (Some ctx) a"
    if "input_controls_num a = 0"
    using that by (rule check_ignores_controls)
  have six: "RunOpControl run c (Some ctx) a = emit [LogDebugRunningCondition True] (run ctx ?a2)"
    if z: "input_controls_num a = 0"
      and dat: "input_datas_num a = 0 \<or>
        length (at_default (input_op_datas a) ?r) = input_datas_num a"
  proof -
    have "CheckRunningCondition (Some ctx) ?a2 = Inr (True, [])"
      using z dat by (intro check_ready) simp_all
    then show ?thesis
      by (simp add: RunOpControl_def)
  qed
  show ?thesis
    using one two three four five six by (simp add: records_failure_def)
qed

theorem excess_is_logged_not_recorded_witness:
  "RunOpData run_nothing (Some msg3) (Some run7) (received run7 [msg1, msg2] actor_X) =
     Inr (received run7 [msg1, msg2, msg3] actor_X,
          [LogErrorInvalidInputDataNum 3 2, LogDebugRunningCondition False])
   \<and> RunOpControl run_nothing (Some ''W'') (Some run7)
        (actor_X\<lparr>input_datas_num := 0, input_controls_num := 1, input_op_controls := [(7, [Some ''V''])]\<rparr>) =
     Inr (actor_X\<lparr>input_datas_num := 0, input_controls_num := 1,
                  input_op_controls := [(7, [Some ''V'', Some ''W''])]\<rparr>,
          [LogErrorInvalidInputControlNum 2 1, LogDebugRunningCondition False])
   \<and> RunOpData run_nothing (Some msg3) (Some run7) actor_S =
     Inr (actor_S\<lparr>input_op_datas := [(7, [msg3])]\<rparr>, [LogDebugRunningCondition True])
   \<and> RunOpControl run_nothing (Some ''W'') (Some run7) actor_S =
     Inr (actor_S\<lparr>input_op_controls := [(7, [Some ''W''])]\<rparr>, [LogDebugRunningCondition True])"
  using excess_is_logged_not_recorded [where d = msg3 and p = 300 and ctx = run7
      and a = "received run7 [msg1, msg2] actor_X" and run = run_nothing]
    excess_is_logged_not_recorded [where d = msg3 and p = 300 and ctx = run7 and c = "Some ''W''"
      and a = "actor_X\<lparr>input_datas_num := 0, input_controls_num := 1,
                        input_op_controls := [(7, [Some ''V''])]\<rparr>" and run = run_nothing]
    excess_is_logged_not_recorded [where d = msg3 and p = 300 and ctx = run7 and c = "Some ''W''"
      and a = actor_S and run = run_nothing]
  by (simp add: actor_X_def actor_S_def msg1_def msg2_def msg3_def run7_def received_def
      emplace_back_def at_default_def run_nothing_def)

text \<open>
  The claim of C4 as it is written fails: with two messages held by an actor that needs
  two, a third delivery for the same run is logged and kept, and nothing sets the failure.
\<close>

theorem excess_not_recorded_in_context_counterexample:
  "RunOpData run_nothing (Some msg3) (Some run7) (received run7 [msg1, msg2] actor_X) =
     Inr (received run7 [msg1, msg2, msg3] actor_X,
          [LogErrorInvalidInputDataNum 3 2, LogDebugRunningCondition False])
   \<and> \<not> records_failure [LogErrorInvalidInputDataNum 3 2, LogDebugRunningCondition False]"
  by (simp add: RunOpData_def CheckRunningCondition_def actor_X_def msg1_def msg2_def msg3_def
      run7_def received_def emplace_back_def at_default_def records_failure_def)


lemma same_for_run_refl [simp]: "same_for_run r a a"
  by (simp add: same_for_run_def)

lemma same_for_run_trans:
  "same_for_run r a b \<Longrightarrow> same_for_run r b c \<Longrightarrow> same_for_run r a c"
  by (simp add: same_for_run_def)

lemma same_for_run_check:
  assumes "same_for_run (sequential_num ctx) a a'"
  shows "CheckRunningCondition (Some ctx) a' = CheckRunningCondition (Some ctx) a"
proof -
  from assms have e: "map_of (input_op_datas a') (sequential_num ctx) = map_of (input_op_datas a) (sequential_num ctx)"
    "map_of (input_op_controls a') (sequential_num ctx) = map_of (input_op_controls a) (sequential_num ctx)"
    "input_datas_num a' = input_datas_num a" "input_controls_num a' = input_controls_num a"
    by (simp_all add: same_for_run_def)
  show ?thesis
    by (simp add: CheckRunningCondition_def e cong: option.case_cong if_cong)
qed

lemma same_for_run_data:
  assumes "r \<noteq> r'"
  shows "same_for_run r a (a\<lparr>input_op_datas := emplace_back r' d (input_op_datas a)\<rparr>)"
  using assms by (simp add: same_for_run_def map_of_emplace_back)

lemma same_for_run_control:
  assumes "r \<noteq> r'"
  shows "same_for_run r a (a\<lparr>input_op_controls := emplace_back r' c (input_op_controls a)\<rparr>)"
  using assms by (simp add: same_for_run_def map_of_emplace_back)

lemma same_for_run_EraseInput:
  assumes "r \<noteq> sequential_num ctx" and "EraseInput (Some ctx) a = Inr (a', evs)"
  shows "same_for_run r a a'"
  using assms
  by (auto simp: EraseInput_def Let_def same_for_run_def split: if_splits)

text \<open>
  C5 (run isolation). For two distinct runs A and B, delivering a data message or a control
  message of run B, or erasing the inputs of run B, leaves what the actor holds for run A
  (its pending data list, its pending control list) and the readiness decision for run A
  unchanged, provided the body of \<^verbatim>\<open>Run\<close>, when the delivery fires the actor for run B,
  leaves the entries of run A alone.
\<close>

theorem run_isolation:
  assumes "sequential_num ctxA \<noteq> sequential_num ctxB"
    and "\<forall>b b' evs. run ctxB b = Inr (b', evs) \<longrightarrow> same_for_run (sequential_num ctxA) b b'"
  shows "(RunOpData run d (Some ctxB) a = Inr (a', evs) \<longrightarrow>
            same_for_run (sequential_num ctxA) a a' \<and>
            CheckRunningCondition (Some ctxA) a' = CheckRunningCondition (Some ctxA) a)
       \<and> (RunOpControl run c (Some ctxB) a = Inr (a', evs) \<longrightarrow>
            same_for_run (sequential_num ctxA) a a' \<and>
            CheckRunningCondition (Some ctxA) a' = CheckRunningCondition (Some ctxA) a)
       \<and> (EraseInput (Some ctxB) a = Inr (a', evs) \<longrightarrow>
            same_for_run (sequential_num ctxA) a a' \<and>
            CheckRunningCondition (Some ctxA) a' = CheckRunningCondition (Some ctxA) a)"
proof -
  let ?A = "sequential_num ctxA"
  have run: "same_for_run ?A b b'" if "emit es (run ctxB b) = Inr (b', evs')" for es b b' evs'
    using that assms(2) by (cases "run ctxB b") (auto simp: emit_def)
  have data: "same_for_run ?A a a'" if "RunOpData run d (Some ctxB) a = Inr (a', evs)"
  proof -
    from that obtain x where d: "d = Some x"
      by (auto simp: RunOpData_def split: option.splits)
    let ?a1 = "a\<lparr>input_op_datas := emplace_back (sequential_num ctxB) x (input_op_datas a)\<rparr>"
    have s1: "same_for_run ?A a ?a1"
      using assms(1) by (rule same_for_run_data)
    from that d have "a' = ?a1 \<or> (\<exists>es. emit es (run ctxB ?a1) = Inr (a', evs))"
      by (auto simp: RunOpData_def Let_def split: option.splits sum.splits if_splits)
    then show ?thesis
      using s1 run same_for_run_trans by blast
  qed
  have control: "same_for_run ?A a a'" if "RunOpControl run c (Some ctxB) a = Inr (a', evs)"
  proof -
    let ?a1 = "a\<lparr>input_op_controls := emplace_back (sequential_num ctxB) c (input_op_controls a)\<rparr>"
    have s1: "same_for_run ?A a ?a1"
      using assms(1) by (rule same_for_run_control)
    from that have "a' = ?a1 \<or> (\<exists>es. emit es (run ctxB ?a1) = Inr (a', evs))"
      by (auto simp: RunOpControl_def Let_def split: sum.splits if_splits)
    then show ?thesis
      using s1 run same_for_run_trans by blast
  qed
  have erase: "same_for_run ?A a a'" if "EraseInput (Some ctxB) a = Inr (a', evs)"
    using assms(1) that by (rule same_for_run_EraseInput)
  show ?thesis
    using data control erase same_for_run_check by blast
qed

theorem run_isolation_witness:
  "RunOpData run_nothing (Some msg2) (Some run8) (received run7 [msg1] actor_X) =
     Inr (received run8 [msg2] (received run7 [msg1] actor_X), [LogDebugRunningCondition False])
   \<and> same_for_run 7 (received run7 [msg1] actor_X) (received run8 [msg2] (received run7 [msg1] actor_X))
   \<and> CheckRunningCondition (Some run7) (received run8 [msg2] (received run7 [msg1] actor_X)) =
       CheckRunningCondition (Some run7) (received run7 [msg1] actor_X)
   \<and> RunOpControl run_nothing (Some ''V'') (Some run8) (received run7 [msg1] actor_X) =
       Inr ((received run7 [msg1] actor_X)\<lparr>input_op_controls := [(8, [Some ''V''])]\<rparr>,
            [LogDebugRunningCondition False])
   \<and> same_for_run 7 (received run7 [msg1] actor_X)
        ((received run7 [msg1] actor_X)\<lparr>input_op_controls := [(8, [Some ''V''])]\<rparr>)
   \<and> EraseInput (Some run8) (received run8 [msg2] (received run7 [msg1] actor_X)) =
       Inr (received run7 [msg1] actor_X, [])
   \<and> same_for_run 7 (received run8 [msg2] (received run7 [msg1] actor_X)) (received run7 [msg1] actor_X)"
  using run_isolation [where ctxA = run7 and ctxB = run8 and run = run_nothing and d = "Some msg2"
      and c = "Some ''V''" and a = "received run7 [msg1] actor_X"
      and a' = "received run8 [msg2] (received run7 [msg1] actor_X)"
      and evs = "[LogDebugRunningCondition False]"]
    run_isolation [where ctxA = run7 and ctxB = run8 and run = run_nothing and d = "Some msg2"
      and c = "Some ''V''" and a = "received run7 [msg1] actor_X"
      and a' = "(received run7 [msg1] actor_X)\<lparr>input_op_controls := [(8, [Some ''V''])]\<rparr>"
      and evs = "[LogDebugRunningCondition False]"]
    run_isolation [where ctxA = run7 and ctxB = run8 and run = run_nothing
      and a = "received run8 [msg2] (received run7 [msg1] actor_X)"
      and a' = "received run7 [msg1] actor_X" and evs = "[]"]
  by (simp add: RunOpData_def RunOpControl_def EraseInput_def CheckRunningCondition_def
      actor_X_def msg1_def msg2_def run7_def run8_def run_nothing_def received_def
      emplace_back_def at_default_def)


section \<open>Properties of the output envelopes and of dispatch\<close>


lemma upt_0_Suc_shift: "[0..<Suc n] = 0 # map Suc [0..<n]"
  by (simp add: upt_conv_Cons map_Suc_upt del: upt_Suc)

lemma count_of_update:
  "count_of (AList.update k v m) k' = (if k' = k then v else count_of m k')"
  by (simp add: count_of_def update_conv')

lemma init_loop_fields:
  assumes "init_output_data_loop sfx arrows cnt a = Inr a'"
  shows "batch_output_data_arrows a' = batch_output_data_arrows a
       \<and> output_data_arrows a' = output_data_arrows a
       \<and> list_all (\<lambda>x. x \<noteq> None) arrows"
  using assms
  by (induction arrows arbitrary: cnt a)
     (auto simp: Let_def split: option.splits if_splits)

lemma init_loop_output_data:
  assumes "init_output_data_loop sfx arrows cnt a = Inr a'"
  shows "output_data a' =
    output_data a @
    map (expected_envelope sfx (batch_output_data_arrows a) cnt arrows) [0..<length arrows]"
  using assms
proof (induction arrows arbitrary: cnt a)
  case Nil
  then show ?case by simp
next
  case (Cons x rest)
  from Cons.prems obtain ar where x: "x = Some ar"
    by (cases x) auto
  let ?d = "to_op_id ar"
  let ?T = "batch_output_data_arrows a"
  let ?env = "\<lparr>op_id = to_op_id ar, data = None, index = to_input_index ar\<rparr>"
  show ?case
  proof (cases "flag ar = kOutputDataFalgBatch")
    case True
    let ?cnt = "AList.update ?d (count_of cnt ?d + 1) cnt"
    let ?fl = "if count_of cnt ?d + 1 = length (at_default ?T ?d)
               then kOutputDataFalgLastBatch else kOutputDataFalgBatch"
    let ?a1 = "a\<lparr>batch_output_data := emplace_back ?d (length (output_data a)) (batch_output_data a),
                  output_data := output_data a @ [(Some ?env, ?fl)]\<rparr>"
    from Cons.prems x True have rest: "init_output_data_loop sfx rest ?cnt ?a1 = Inr a'"
      by (simp add: Let_def count_of_update split: if_splits)
    have shift: "expected_envelope sfx ?T cnt (x # rest) (Suc k) = expected_envelope sfx ?T ?cnt rest k" for k
      using x True
      by (simp add: expected_envelope_def count_of_update is_batch_arrow_to_def
          split: option.splits)
    have head: "expected_envelope sfx ?T cnt (x # rest) 0 = (Some ?env, ?fl)"
      using x True by (simp add: expected_envelope_def is_batch_arrow_to_def)
    show ?thesis
      using Cons.IH [OF rest]
      by (simp add: upt_0_Suc_shift comp_def shift head del: upt_Suc)
  next
    case False
    let ?fl = "if sublist sfx ?d then kOutputDataFalgToStack else kOutputDataFalgInit"
    let ?a1 = "a\<lparr>output_data := output_data a @ [(Some ?env, ?fl)]\<rparr>"
    from Cons.prems x False have rest: "init_output_data_loop sfx rest cnt ?a1 = Inr a'"
      by (simp add: Let_def split: if_splits)
    have shift: "expected_envelope sfx ?T cnt (x # rest) (Suc k) = expected_envelope sfx ?T cnt rest k" for k
      using x False
      by (simp add: expected_envelope_def is_batch_arrow_to_def split: option.splits)
    have head: "expected_envelope sfx ?T cnt (x # rest) 0 = (Some ?env, ?fl)"
      using x False by (simp add: expected_envelope_def)
    show ?thesis
      using Cons.IH [OF rest]
      by (simp add: upt_0_Suc_shift comp_def shift head del: upt_Suc)
  qed
qed

lemma init_loop_batch_output_data:
  assumes "init_output_data_loop sfx arrows cnt a = Inr a'"
  shows "at_default (batch_output_data a') d =
    at_default (batch_output_data a) d @
    map (\<lambda>k. length (output_data a) + k)
      (filter (\<lambda>k. is_batch_arrow_to d (arrows ! k)) [0..<length arrows])"
  using assms
proof (induction arrows arbitrary: cnt a)
  case Nil
  then show ?case by simp
next
  case (Cons x rest)
  from Cons.prems obtain ar where x: "x = Some ar"
    by (cases x) auto
  let ?d = "to_op_id ar"
  let ?env = "\<lparr>op_id = to_op_id ar, data = None, index = to_input_index ar\<rparr>"
  show ?case
  proof (cases "flag ar = kOutputDataFalgBatch")
    case True
    let ?cnt = "AList.update ?d (count_of cnt ?d + 1) cnt"
    let ?fl = "if count_of cnt ?d + 1 = length (at_default (batch_output_data_arrows a) ?d)
               then kOutputDataFalgLastBatch else kOutputDataFalgBatch"
    let ?a1 = "a\<lparr>batch_output_data := emplace_back ?d (length (output_data a)) (batch_output_data a),
                  output_data := output_data a @ [(Some ?env, ?fl)]\<rparr>"
    from Cons.prems x True have rest: "init_output_data_loop sfx rest ?cnt ?a1 = Inr a'"
      by (simp add: Let_def count_of_update split: if_splits)
    show ?thesis
      using Cons.IH [OF rest] x True
      by (simp add: upt_0_Suc_shift filter_map comp_def at_default_emplace_back
          is_batch_arrow_to_def del: upt_Suc)
  next
    case False
    let ?fl = "if sublist sfx ?d then kOutputDataFalgToStack else kOutputDataFalgInit"
    let ?a1 = "a\<lparr>output_data := output_data a @ [(Some ?env, ?fl)]\<rparr>"
    from Cons.prems x False have rest: "init_output_data_loop sfx rest cnt ?a1 = Inr a'"
      by (simp add: Let_def split: if_splits)
    show ?thesis
      using Cons.IH [OF rest] x False
      by (simp add: upt_0_Suc_shift filter_map comp_def is_batch_arrow_to_def del: upt_Suc)
  qed
qed

lemma filter_take_all_iff:
  "length (filter P (take k xs)) = length (filter P xs) \<longleftrightarrow>
     \<not> (\<exists>j. k \<le> j \<and> j < length xs \<and> P (xs ! j))"
proof -
  have "length (filter P xs) = length (filter P (take k xs)) + length (filter P (drop k xs))"
    by (metis append_take_drop_id filter_append length_append)
  then have "length (filter P (take k xs)) = length (filter P xs) \<longleftrightarrow> filter P (drop k xs) = []"
    by auto
  also have "\<dots> \<longleftrightarrow> (\<forall>x \<in> set (drop k xs). \<not> P x)"
    by (simp add: filter_empty_conv)
  also have "\<dots> \<longleftrightarrow> \<not> (\<exists>j. k \<le> j \<and> j < length xs \<and> P (xs ! j))"
  proof
    assume h: "\<forall>x \<in> set (drop k xs). \<not> P x"
    show "\<not> (\<exists>j. k \<le> j \<and> j < length xs \<and> P (xs ! j))"
    proof
      assume "\<exists>j. k \<le> j \<and> j < length xs \<and> P (xs ! j)"
      then obtain j where j: "k \<le> j" "j < length xs" "P (xs ! j)" by blast
      then have "xs ! j = drop k xs ! (j - k)" "j - k < length (drop k xs)"
        by simp_all
      then have "xs ! j \<in> set (drop k xs)"
        by (metis nth_mem)
      with h j(3) show False by blast
    qed
  next
    assume h: "\<not> (\<exists>j. k \<le> j \<and> j < length xs \<and> P (xs ! j))"
    show "\<forall>x \<in> set (drop k xs). \<not> P x"
    proof
      fix x assume "x \<in> set (drop k xs)"
      then obtain m where m: "m < length (drop k xs)" "x = drop k xs ! m"
        by (metis in_set_conv_nth)
      then have "x = xs ! (k + m)" "k + m < length xs"
        by simp_all
      with h show "\<not> P x"
        by (metis le_add1)
    qed
  qed
  finally show ?thesis .
qed

text \<open>
  C10, as amended. Let \<^verbatim>\<open>InitOutputData\<close> complete on an actor whose table of batch arrows
  has, for every destination, as many entries as the actor has batch arrows to it. Then the
  envelope created for a batch arrow carries \<open>LastBatch\<close> when no later batch arrow goes to
  the same destination and \<open>Batch\<close> otherwise; exactly one of the envelopes created for
  that destination carries \<open>LastBatch\<close>; and the batch list of the destination is extended
  by the addresses of the envelopes of its batch arrows, in arrow order, so the address of
  every batch envelope is in it.
\<close>

theorem init_output_data_last_batch:
  assumes "InitOutputData sfx a = Inr a'"
    and "\<forall>d. length (at_default (batch_output_data_arrows a) d) =
             length (filter (is_batch_arrow_to d) (output_data_arrows a))"
    and "i < length (output_data_arrows a)"
    and "output_data_arrows a ! i = Some ar"
    and "flag ar = kOutputDataFalgBatch"
  shows "output_data a' ! (length (output_data a) + i) =
           (Some \<lparr>op_id = to_op_id ar, data = None, index = to_input_index ar\<rparr>,
            if \<exists>j. i < j \<and> j < length (output_data_arrows a) \<and>
                  is_batch_arrow_to (to_op_id ar) (output_data_arrows a ! j)
            then kOutputDataFalgBatch else kOutputDataFalgLastBatch)
       \<and> (\<exists>!j. j < length (output_data_arrows a) \<and>
               (\<exists>ar'. output_data_arrows a ! j = Some ar' \<and> to_op_id ar' = to_op_id ar) \<and>
               snd (output_data a' ! (length (output_data a) + j)) = kOutputDataFalgLastBatch)
       \<and> at_default (batch_output_data a') (to_op_id ar) =
           at_default (batch_output_data a) (to_op_id ar) @
           map (\<lambda>k. length (output_data a) + k)
             (filter (\<lambda>k. is_batch_arrow_to (to_op_id ar) (output_data_arrows a ! k))
                [0..<length (output_data_arrows a)])
       \<and> length (output_data a) + i \<in> set (at_default (batch_output_data a') (to_op_id ar))"
proof -
  let ?arrows = "output_data_arrows a"
  let ?n = "length ?arrows"
  let ?base = "length (output_data a)"
  let ?d = "to_op_id ar"
  let ?B = "\<lambda>j. is_batch_arrow_to ?d (?arrows ! j)"
  from assms(1) have loop: "init_output_data_loop sfx ?arrows [] a = Inr a'"
    by (simp add: InitOutputData_def)
  have out: "output_data a' =
      output_data a @ map (expected_envelope sfx (batch_output_data_arrows a) [] ?arrows) [0..<?n]"
    by (rule init_loop_output_data [OF loop])
  have nth: "output_data a' ! (?base + j) =
      expected_envelope sfx (batch_output_data_arrows a) [] ?arrows j" if "j < ?n" for j
    using that by (simp add: out nth_append)
  have somes: "list_all (\<lambda>x. x \<noteq> None) ?arrows"
    using init_loop_fields [OF loop] by simp
  have last_iff: "snd (output_data a' ! (?base + j)) = kOutputDataFalgLastBatch \<longleftrightarrow>
      flag ar' = kOutputDataFalgBatch \<and>
      \<not> (\<exists>m. j < m \<and> m < ?n \<and> is_batch_arrow_to (to_op_id ar') (?arrows ! m))"
    if "j < ?n" and "?arrows ! j = Some ar'" for j ar'
  proof -
    have "length (filter (is_batch_arrow_to (to_op_id ar')) (take (Suc j) ?arrows)) =
        length (at_default (batch_output_data_arrows a) (to_op_id ar')) \<longleftrightarrow>
        \<not> (\<exists>m. j < m \<and> m < ?n \<and> is_batch_arrow_to (to_op_id ar') (?arrows ! m))"
      using filter_take_all_iff [of "is_batch_arrow_to (to_op_id ar')" "Suc j" ?arrows] assms(2)
      by (simp add: Suc_le_eq)
    then show ?thesis
      using that by (simp add: nth expected_envelope_def count_of_def sublist_code(3))
  qed
  have Bi: "?B i"
    using assms(4,5) by (simp add: is_batch_arrow_to_def)
  have one: "output_data a' ! (?base + i) =
      (Some \<lparr>op_id = ?d, data = None, index = to_input_index ar\<rparr>,
       if \<exists>j. i < j \<and> j < ?n \<and> ?B j then kOutputDataFalgBatch else kOutputDataFalgLastBatch)"
  proof -
    have "fst (output_data a' ! (?base + i)) = Some \<lparr>op_id = ?d, data = None, index = to_input_index ar\<rparr>"
      using assms(3,4) by (simp add: nth expected_envelope_def)
    moreover have "snd (output_data a' ! (?base + i)) \<in> {kOutputDataFalgBatch, kOutputDataFalgLastBatch}"
      using assms(3,4,5) by (simp add: nth expected_envelope_def)
    ultimately show ?thesis
      using last_iff [OF assms(3,4)] assms(5)
      by (cases "output_data a' ! (?base + i)") auto
  qed
  have two: "\<exists>!j. j < ?n \<and> (\<exists>ar'. ?arrows ! j = Some ar' \<and> to_op_id ar' = ?d) \<and>
      snd (output_data a' ! (?base + j)) = kOutputDataFalgLastBatch"
  proof -
    let ?S = "{j. j < ?n \<and> ?B j}"
    have fin: "finite ?S" by simp
    have ne: "?S \<noteq> {}" using assms(3) Bi by blast
    define m where "m = Max ?S"
    have mS: "m \<in> ?S" unfolding m_def using fin ne by (rule Max_in)
    have mmax: "j \<le> m" if "j \<in> ?S" for j
      unfolding m_def using fin that by (rule Max_ge)
    from mS obtain am where am: "?arrows ! m = Some am" "flag am = kOutputDataFalgBatch" "to_op_id am = ?d"
      by (auto simp: is_batch_arrow_to_def split: option.splits)
    have mlast: "snd (output_data a' ! (?base + m)) = kOutputDataFalgLastBatch"
      using last_iff [of m am] mS am mmax by (auto simp: not_less [symmetric])
    show ?thesis
    proof (rule ex1I [of _ m])
      show "m < ?n \<and> (\<exists>ar'. ?arrows ! m = Some ar' \<and> to_op_id ar' = ?d) \<and>
          snd (output_data a' ! (?base + m)) = kOutputDataFalgLastBatch"
        using mS am mlast by auto
    next
      fix j
      assume j: "j < ?n \<and> (\<exists>ar'. ?arrows ! j = Some ar' \<and> to_op_id ar' = ?d) \<and>
          snd (output_data a' ! (?base + j)) = kOutputDataFalgLastBatch"
      then obtain aj where aj: "?arrows ! j = Some aj" "to_op_id aj = ?d" by blast
      from j aj last_iff [of j aj] have fl: "flag aj = kOutputDataFalgBatch"
        and nolater: "\<not> (\<exists>k. j < k \<and> k < ?n \<and> ?B k)"
        by auto
      from fl aj j have "j \<in> ?S" by (simp add: is_batch_arrow_to_def)
      then have "j \<le> m" by (rule mmax)
      moreover have "\<not> j < m" using nolater mS by blast
      ultimately show "j = m" by simp
    qed
  qed
  have three: "at_default (batch_output_data a') ?d =
      at_default (batch_output_data a) ?d @
      map (\<lambda>k. ?base + k) (filter ?B [0..<?n])"
    by (rule init_loop_batch_output_data [OF loop])
  have four: "?base + i \<in> set (at_default (batch_output_data a') ?d)"
    using assms(3) Bi by (simp add: three)
  from one two three four show ?thesis by blast
qed

theorem init_output_data_last_batch_witness:
  "InitOutputData ''_StackActor'' actor_S =
     Inr (actor_S\<lparr>output_data :=
            [(Some \<lparr>op_id = ''D'', data = None, index = 0\<rparr>, kOutputDataFalgBatch),
             (Some \<lparr>op_id = ''E'', data = None, index = 0\<rparr>, kOutputDataFalgInit),
             (Some \<lparr>op_id = ''D'', data = None, index = 1\<rparr>, kOutputDataFalgLastBatch)],
          batch_output_data := [(''D'', [0, 2])]\<rparr>)
   \<and> (2::nat) \<in> set (at_default [(''D'', [0, 2])] ''D'')"
proof -
  let ?a' = "actor_S\<lparr>output_data :=
            [(Some \<lparr>op_id = ''D'', data = None, index = 0\<rparr>, kOutputDataFalgBatch),
             (Some \<lparr>op_id = ''E'', data = None, index = 0\<rparr>, kOutputDataFalgInit),
             (Some \<lparr>op_id = ''D'', data = None, index = 1\<rparr>, kOutputDataFalgLastBatch)],
          batch_output_data := [(''D'', [0, 2])]\<rparr>"
  have run: "InitOutputData ''_StackActor'' actor_S = Inr ?a'"
    by (simp add: InitOutputData_def actor_S_def Let_def emplace_back_def at_default_def
        count_of_def sublist_code(3))
  have table: "\<forall>d. length (at_default (batch_output_data_arrows actor_S) d) =
      length (filter (is_batch_arrow_to d) (output_data_arrows actor_S))"
    by (simp add: actor_S_def at_default_def is_batch_arrow_to_def)
  have i: "2 < length (output_data_arrows actor_S)"
    "output_data_arrows actor_S ! 2 = Some \<lparr>to_op_id = ''D'', to_input_index = 1, flag = kOutputDataFalgBatch\<rparr>"
    "flag \<lparr>to_op_id = ''D'', to_input_index = 1, flag = kOutputDataFalgBatch\<rparr> = kOutputDataFalgBatch"
    by (simp_all add: actor_S_def)
  have "length (output_data actor_S) + 2 \<in>
      set (at_default (batch_output_data ?a')
             (to_op_id \<lparr>to_op_id = ''D'', to_input_index = 1, flag = kOutputDataFalgBatch\<rparr>))"
    using init_output_data_last_batch [OF run table i] by blast
  then have "(2::nat) \<in> set (at_default [(''D'', [0, 2])] ''D'')"
    by (simp add: actor_S_def numeral_2_eq_2)
  with run show ?thesis by blast
qed

text \<open>
  The claim of C10 as it is written fails in two ways. With an empty table of batch arrows,
  both envelopes of two batch arrows to \<open>D\<close> carry \<open>Batch\<close> and none carries \<open>LastBatch\<close>.
  With a plain and a batch arrow to \<open>D\<close>, the plain envelope (address 0) is an envelope for
  \<open>D\<close> that is not in the batch list of \<open>D\<close>.
\<close>

theorem init_output_data_counterexample:
  "InitOutputData ''_StackActor'' actor_T =
     Inr (actor_T\<lparr>output_data :=
            [(Some \<lparr>op_id = ''D'', data = None, index = 0\<rparr>, kOutputDataFalgBatch),
             (Some \<lparr>op_id = ''D'', data = None, index = 1\<rparr>, kOutputDataFalgBatch)],
          batch_output_data := [(''D'', [0, 1])]\<rparr>)
   \<and> InitOutputData ''_StackActor'' actor_M =
     Inr (actor_M\<lparr>output_data :=
            [(Some \<lparr>op_id = ''D'', data = None, index = 0\<rparr>, kOutputDataFalgInit),
             (Some \<lparr>op_id = ''D'', data = None, index = 1\<rparr>, kOutputDataFalgLastBatch)],
          batch_output_data := [(''D'', [1])]\<rparr>)"
  by (simp add: InitOutputData_def actor_T_def actor_M_def Let_def emplace_back_def at_default_def
      count_of_def sublist_code(3))


lemma agree_off_refl: "agree_off J a a"
  by (simp add: agree_off_def)

lemma agree_off_trans:
  "agree_off J a b \<Longrightarrow> agree_off K b c \<Longrightarrow> agree_off (J \<union> K) a c"
  by (simp add: agree_off_def)

lemma data_send_events_agree:
  assumes "agree_off J a b" and "j \<notin> J"
  shows "data_send_events upd ctx b j = data_send_events upd ctx a j"
proof -
  from assms have "output_data b ! j = output_data a ! j"
    "output_data_arrows b = output_data_arrows a" "output_data_nodes b = output_data_nodes a"
    "batch_output_data b = batch_output_data a"
    by (simp_all add: agree_off_def)
  then show ?thesis
    by (simp add: data_send_events_def Let_def split: option.splits)
qed

lemma send_output_data_step:
  assumes "send_output_data upd ctx j a = Inr (a1, evs)"
  shows "evs = data_send_events upd ctx a j \<and> agree_off {j} a a1"
  using assms
  by (auto simp: send_output_data_def data_send_events_def agree_off_def Let_def
      split: option.splits if_splits)

lemma send_output_data_loop_events:
  assumes "send_output_data_loop upd ctx js a = Inr (a', evs)" and "distinct js"
  shows "evs = concat (map (data_send_events upd ctx a) js) \<and> agree_off (set js) a a'"
  using assms
proof (induction js arbitrary: a evs)
  case Nil
  then show ?case by (simp add: agree_off_refl)
next
  case (Cons j js)
  from Cons.prems(1) obtain a1 evs1 evs2 where
    step: "send_output_data upd ctx j a = Inr (a1, evs1)"
    and rest: "send_output_data_loop upd ctx js a1 = Inr (a', evs2)"
    and evs: "evs = evs1 @ evs2"
    by (auto simp: emit_def split: sum.splits prod.splits)
  from send_output_data_step [OF step]
  have e1: "evs1 = data_send_events upd ctx a j" and ag1: "agree_off {j} a a1"
    by simp_all
  from Cons.prems(2) have dj: "j \<notin> set js" and djs: "distinct js"
    by simp_all
  from Cons.IH [OF rest djs]
  have e2: "evs2 = concat (map (data_send_events upd ctx a1) js)" and ag2: "agree_off (set js) a1 a'"
    by simp_all
  have same: "map (data_send_events upd ctx a1) js = map (data_send_events upd ctx a) js"
  proof (rule map_cong [OF refl])
    fix k assume "k \<in> set js"
    with dj have "k \<notin> {j}" by auto
    with ag1 show "data_send_events upd ctx a1 k = data_send_events upd ctx a k"
      by (rule data_send_events_agree)
  qed
  have "agree_off ({j} \<union> set js) a a'"
    using ag1 ag2 by (rule agree_off_trans)
  then show ?case
    by (simp add: evs e1 e2 same)
qed

lemma send_output_data_total:
  assumes "j < length (output_data a)" and "fst (output_data a ! j) \<noteq> None"
    and "j < length (output_data_arrows a)" and "output_data_arrows a ! j \<noteq> None"
    and "j < length (output_data_nodes a)"
  shows "\<exists>a1 evs. send_output_data upd ctx j a = Inr (a1, evs)"
  using assms
  by (auto simp: send_output_data_def Let_def split: option.splits)

lemma send_output_data_loop_total:
  assumes "distinct js"
    and "\<forall>j \<in> set js. j < length (output_data a) \<and> fst (output_data a ! j) \<noteq> None \<and>
           j < length (output_data_arrows a) \<and> output_data_arrows a ! j \<noteq> None \<and>
           j < length (output_data_nodes a)"
  shows "\<exists>a' evs. send_output_data_loop upd ctx js a = Inr (a', evs)"
  using assms
proof (induction js arbitrary: a)
  case Nil
  then show ?case by simp
next
  case (Cons j js)
  from Cons.prems(2) obtain a1 evs1 where step: "send_output_data upd ctx j a = Inr (a1, evs1)"
    using send_output_data_total [of j a upd ctx] by auto
  from send_output_data_step [OF step] have ag: "agree_off {j} a a1" by simp
  have "\<forall>k \<in> set js. k < length (output_data a1) \<and> fst (output_data a1 ! k) \<noteq> None \<and>
           k < length (output_data_arrows a1) \<and> output_data_arrows a1 ! k \<noteq> None \<and>
           k < length (output_data_nodes a1)"
    using Cons.prems ag by (auto simp: agree_off_def)
  with Cons.IH [of a1] Cons.prems(1) obtain a' evs2 where
    "send_output_data_loop upd ctx js a1 = Inr (a', evs2)"
    by auto
  with step show ?case by simp
qed

lemma send_output_data_valid:
  assumes "send_output_data upd ctx j a = Inr (a1, evs)"
  shows "fst (output_data a ! j) \<noteq> None \<and> output_data_arrows a ! j \<noteq> None"
  using assms
  by (auto simp: send_output_data_def Let_def split: option.splits if_splits)

lemma send_output_data_loop_valid:
  assumes "send_output_data_loop upd ctx js a = Inr (a', evs)" and "distinct js"
  shows "\<forall>j \<in> set js. fst (output_data a ! j) \<noteq> None \<and> output_data_arrows a ! j \<noteq> None"
  using assms
proof (induction js arbitrary: a evs)
  case Nil
  then show ?case by simp
next
  case (Cons j js)
  from Cons.prems(1) obtain a1 evs1 evs2 where
    step: "send_output_data upd ctx j a = Inr (a1, evs1)"
    and rest: "send_output_data_loop upd ctx js a1 = Inr (a', evs2)"
    by (auto simp: emit_def split: sum.splits prod.splits)
  from send_output_data_step [OF step] have ag: "agree_off {j} a a1" by simp
  from Cons.prems(2) have dj: "j \<notin> set js" and djs: "distinct js" by simp_all
  have "\<forall>k \<in> set js. fst (output_data a1 ! k) \<noteq> None \<and> output_data_arrows a1 ! k \<noteq> None"
    by (rule Cons.IH [OF rest djs])
  moreover have "output_data a1 ! k = output_data a ! k" if "k \<in> set js" for k
    using ag dj that by (auto simp: agree_off_def)
  moreover have "output_data_arrows a1 = output_data_arrows a"
    using ag by (simp add: agree_off_def)
  ultimately show ?case
    using send_output_data_valid [OF step] by simp
qed


lemma data_send_events_all_data:
  "list_all is_data_send (data_send_events upd ctx a j)"
  by (auto simp: data_send_events_def Let_def split: option.splits)



lemma SendOutput_events:
  assumes "\<not> ((length (output_data_arrows a) \<noteq> length (output_data a) \<or>
              length (output_data_arrows a) \<noteq> length (output_data_nodes a)) \<and>
             type a < kSwitchActor)"
    and "SendOutput upd kSwitchActor (Some ctx) a = Inr (a', evs)"
  shows "evs =
      concat (map (data_send_events upd ctx a) [0..<length (output_data a)])
      @ map (\<lambda>c. SendRunOpControl c (aid a)) (output_control_arrows a)
      @ [SendRecorderInfo]
      @ (if output_data_arrows a = [] \<and> output_control_arrows a = [] \<and> type a < kSwitchActor
         then [SetSuccess] else [])"
    and "\<forall>j < length (output_data a). fst (output_data a ! j) \<noteq> None \<and> output_data_arrows a ! j \<noteq> None"
proof -
  from assms obtain data_evs where
    loop: "send_output_data_loop upd ctx [0..<length (output_data a)] a = Inr (a', data_evs)"
    and evs: "evs = data_evs
      @ map (\<lambda>c. SendRunOpControl c (aid a')) (output_control_arrows a')
      @ [SendRecorderInfo]
      @ (if length (output_data_arrows a') = 0 \<and> length (output_control_arrows a') = 0 \<and>
            type a' < kSwitchActor
         then [SetSuccess] else [])"
    by (auto simp: SendOutput_def split: if_splits sum.splits prod.splits)
  from send_output_data_loop_events [OF loop]
  have d: "data_evs = concat (map (data_send_events upd ctx a) [0..<length (output_data a)])"
    and ag: "agree_off (set [0..<length (output_data a)]) a a'"
    by simp_all
  from ag have same: "aid a' = aid a" "output_control_arrows a' = output_control_arrows a"
    "output_data_arrows a' = output_data_arrows a" "type a' = type a"
    by (simp_all add: agree_off_def)
  show "evs =
      concat (map (data_send_events upd ctx a) [0..<length (output_data a)])
      @ map (\<lambda>c. SendRunOpControl c (aid a)) (output_control_arrows a)
      @ [SendRecorderInfo]
      @ (if output_data_arrows a = [] \<and> output_control_arrows a = [] \<and> type a < kSwitchActor
         then [SetSuccess] else [])"
    by (simp add: evs d same)
  show "\<forall>j < length (output_data a). fst (output_data a ! j) \<noteq> None \<and> output_data_arrows a ! j \<noteq> None"
    using send_output_data_loop_valid [OF loop] by simp
qed

lemma SendOutput_total:
  assumes "length (output_data_arrows a) = length (output_data a)"
    and "length (output_data_arrows a) = length (output_data_nodes a)"
    and "list_all (\<lambda>e. fst e \<noteq> None) (output_data a)"
    and "list_all (\<lambda>x. x \<noteq> None) (output_data_arrows a)"
  shows "\<exists>a' evs. SendOutput upd kSwitchActor (Some ctx) a = Inr (a', evs)"
proof -
  have "\<exists>a' evs. send_output_data_loop upd ctx [0..<length (output_data a)] a = Inr (a', evs)"
    using assms by (intro send_output_data_loop_total) (auto simp: list_all_length)
  then show ?thesis
    using assms(1,2) by (auto simp: SendOutput_def)
qed

text \<open>
  C6, as amended. \<^verbatim>\<open>SendOutput\<close> first compares the number of output data arrows with the
  numbers of cached envelopes and of output nodes. For an actor that is not of a control-flow
  type, a mismatch sets the failure of the run and nothing is sent. Otherwise, when the
  dispatch returns, its events are, in this order: the data messages of the envelopes in
  envelope order (and nothing but data messages), one control message per output control
  arrow, the recorder info, and last the success signal, which is present if and only if the
  actor has no output data arrow, no output control arrow and is not of a control-flow type.
  The dispatch does return when the three numbers agree and no envelope or arrow is null.
\<close>

theorem send_output_order:
  "((length (output_data_arrows a) \<noteq> length (output_data a) \<or>
     length (output_data_arrows a) \<noteq> length (output_data_nodes a)) \<and> type a < kSwitchActor \<longrightarrow>
      SendOutput upd kSwitchActor (Some ctx) a =
        Inr (a, [SetFailed ''The size of output data arrows is not equal to the output data.'']))
   \<and> (\<not> ((length (output_data_arrows a) \<noteq> length (output_data a) \<or>
            length (output_data_arrows a) \<noteq> length (output_data_nodes a)) \<and> type a < kSwitchActor) \<and>
       SendOutput upd kSwitchActor (Some ctx) a = Inr (a', evs) \<longrightarrow>
         evs =
           concat (map (data_send_events upd ctx a) [0..<length (output_data a)])
           @ map (\<lambda>c. SendRunOpControl c (aid a)) (output_control_arrows a)
           @ [SendRecorderInfo]
           @ (if output_data_arrows a = [] \<and> output_control_arrows a = [] \<and> type a < kSwitchActor
              then [SetSuccess] else [])
         \<and> list_all is_data_send
             (concat (map (data_send_events upd ctx a) [0..<length (output_data a)]))
         \<and> (SetSuccess \<in> set evs \<longleftrightarrow>
              output_data_arrows a = [] \<and> output_control_arrows a = [] \<and> type a < kSwitchActor))
   \<and> (length (output_data_arrows a) = length (output_data a) \<and>
       length (output_data_arrows a) = length (output_data_nodes a) \<and>
       list_all (\<lambda>e. fst e \<noteq> None) (output_data a) \<and>
       list_all (\<lambda>x. x \<noteq> None) (output_data_arrows a) \<longrightarrow>
         (\<exists>b es. SendOutput upd kSwitchActor (Some ctx) a = Inr (b, es)))"
proof -
  let ?guard = "(length (output_data_arrows a) \<noteq> length (output_data a) \<or>
     length (output_data_arrows a) \<noteq> length (output_data_nodes a)) \<and> type a < kSwitchActor"
  let ?data = "concat (map (data_send_events upd ctx a) [0..<length (output_data a)])"
  have all_data: "list_all is_data_send ?data"
    using data_send_events_all_data [of upd ctx a] by (auto simp: list_all_iff)
  have one: "?guard \<longrightarrow> SendOutput upd kSwitchActor (Some ctx) a =
      Inr (a, [SetFailed ''The size of output data arrows is not equal to the output data.''])"
    by (simp add: SendOutput_def)
  have two: "evs = ?data
      @ map (\<lambda>c. SendRunOpControl c (aid a)) (output_control_arrows a)
      @ [SendRecorderInfo]
      @ (if output_data_arrows a = [] \<and> output_control_arrows a = [] \<and> type a < kSwitchActor
         then [SetSuccess] else [])
      \<and> list_all is_data_send ?data
      \<and> (SetSuccess \<in> set evs \<longleftrightarrow>
           output_data_arrows a = [] \<and> output_control_arrows a = [] \<and> type a < kSwitchActor)"
    if g: "\<not> ?guard" and ok: "SendOutput upd kSwitchActor (Some ctx) a = Inr (a', evs)"
  proof -
    have e: "evs = ?data
      @ map (\<lambda>c. SendRunOpControl c (aid a)) (output_control_arrows a)
      @ [SendRecorderInfo]
      @ (if output_data_arrows a = [] \<and> output_control_arrows a = [] \<and> type a < kSwitchActor
         then [SetSuccess] else [])"
      by (rule SendOutput_events(1) [OF g ok])
    have nd: "SetSuccess \<notin> set ?data"
    proof
      assume "SetSuccess \<in> set ?data"
      with all_data have "is_data_send SetSuccess"
        unfolding list_all_iff by blast
      then show False by simp
    qed
    have "SetSuccess \<in> set evs \<longleftrightarrow>
        output_data_arrows a = [] \<and> output_control_arrows a = [] \<and> type a < kSwitchActor"
      unfolding e using nd by auto
    with e all_data show ?thesis by blast
  qed
  have three: "length (output_data_arrows a) = length (output_data a) \<and>
       length (output_data_arrows a) = length (output_data_nodes a) \<and>
       list_all (\<lambda>e. fst e \<noteq> None) (output_data a) \<and>
       list_all (\<lambda>x. x \<noteq> None) (output_data_arrows a) \<longrightarrow>
         (\<exists>b es. SendOutput upd kSwitchActor (Some ctx) a = Inr (b, es))"
    using SendOutput_total [of a upd kSwitchActor ctx] by blast
  from one two three show ?thesis by blast
qed

theorem send_output_order_witness:
  "SendOutput update_55 12 (Some run7) actor_Z =
     Inr (actor_Z, [SetFailed ''The size of output data arrows is not equal to the output data.''])
   \<and> SendOutput update_55 12 (Some run7) actor_X_ready =
     Inr (actor_X_ready\<lparr>output_data :=
            [(Some \<lparr>op_id = ''Y'', data = Some (Some 55), index = 0\<rparr>, kOutputDataFalgInit),
             (Some \<lparr>op_id = ''Z'', data = Some (Some 55), index = 0\<rparr>, kOutputDataFalgInit)]\<rparr>,
          [SendRunOpData ''Y'' \<lparr>op_id = ''Y'', data = Some (Some 55), index = 0\<rparr>,
           SendRunOpData ''Z'' \<lparr>op_id = ''Z'', data = Some (Some 55), index = 0\<rparr>,
           SendRecorderInfo])
   \<and> SetSuccess \<notin> set
         [SendRunOpData ''Y'' \<lparr>op_id = ''Y'', data = Some (Some 55), index = 0\<rparr>,
          SendRunOpData ''Z'' \<lparr>op_id = ''Z'', data = Some (Some 55), index = 0\<rparr>,
          SendRecorderInfo]"
proof -
  let ?b = "actor_X_ready\<lparr>output_data :=
            [(Some \<lparr>op_id = ''Y'', data = Some (Some 55), index = 0\<rparr>, kOutputDataFalgInit),
             (Some \<lparr>op_id = ''Z'', data = Some (Some 55), index = 0\<rparr>, kOutputDataFalgInit)]\<rparr>"
  let ?es = "[SendRunOpData ''Y'' \<lparr>op_id = ''Y'', data = Some (Some 55), index = 0\<rparr>,
           SendRunOpData ''Z'' \<lparr>op_id = ''Z'', data = Some (Some 55), index = 0\<rparr>,
           SendRecorderInfo]"
  have failed: "SendOutput update_55 12 (Some run7) actor_Z =
      Inr (actor_Z, [SetFailed ''The size of output data arrows is not equal to the output data.''])"
    using send_output_order [of actor_Z 12 update_55 run7] by (simp add: actor_Z_def)
  have "\<exists>b es. SendOutput update_55 12 (Some run7) actor_X_ready = Inr (b, es)"
    using send_output_order [of actor_X_ready 12 update_55 run7]
    by (simp add: actor_X_ready_def actor_X_def)
  have sent: "SendOutput update_55 12 (Some run7) actor_X_ready = Inr (?b, ?es)"
    by (simp add: SendOutput_def send_output_data_def actor_X_ready_def actor_X_def update_55_def
        Let_def upt_conv_Cons)
  have "SetSuccess \<in> set ?es \<longleftrightarrow>
      output_data_arrows actor_X_ready = [] \<and> output_control_arrows actor_X_ready = [] \<and>
      type actor_X_ready < 12"
    using send_output_order [of actor_X_ready 12 update_55 run7 ?b ?es] sent
    by (simp add: actor_X_ready_def actor_X_def)
  then have "SetSuccess \<notin> set ?es"
    by (simp add: actor_X_ready_def actor_X_def)
  with failed sent show ?thesis by blast
qed

text \<open>
  The claim of C6 as it is written fails: an actor with no output arrow of either kind, not
  of a control-flow type, whose list of output nodes is not empty, does not signal success;
  \<^verbatim>\<open>SendOutput\<close> sets the failure and returns.
\<close>

theorem send_output_no_success_counterexample:
  "output_data_arrows actor_Z = [] \<and> output_control_arrows actor_Z = [] \<and> type actor_Z < 12
   \<and> SendOutput update_55 12 (Some run7) actor_Z =
       Inr (actor_Z, [SetFailed ''The size of output data arrows is not equal to the output data.''])"
  by (simp add: SendOutput_def actor_Z_def)






section \<open>Properties of the gradient tape\<close>


lemma map_of_ordered_insert:
  "map_of (ordered_insert k v m) x =
     (if x = k \<and> map_of m k = None then Some v else map_of m x)"
  by (simp add: ordered_insert_def map_add_def split: option.splits)

lemma keys_ordered_insert:
  "map fst (ordered_insert k v m) =
     (if k \<in> set (map fst m) then map fst m else map fst m @ [k])"
  by (auto simp: ordered_insert_def map_of_eq_None_iff)

lemma keys_step_prefix:
  assumes "ks' = (if k \<in> set ks then ks else ks @ [k])"
  shows "prefix ks ks' \<and> (distinct ks \<longrightarrow> distinct ks')"
  using assms by auto

lemma build_adjoint_loop_keys:
  assumes "build_adjoint_loop g tp cnode args is m = Inr m'"
  shows "prefix (map fst m) (map fst m') \<and> (distinct (map fst m) \<longrightarrow> distinct (map fst m'))"
  using assms
proof (induction "is" arbitrary: m)
  case Nil
  then show ?case by simp
next
  case (Cons i rest)
  let ?inp = "inputs (g cnode) ! i"
  from Cons.prems obtain m1 where
    rest: "build_adjoint_loop g tp cnode args rest m1 = Inr m'"
    and keys: "map fst m1 = (if ?inp \<in> set (map fst m) then map fst m else map fst m @ [?inp])"
    by (auto simp: Let_def keys_ordered_insert update_keys split: option.splits if_splits)
  from keys_step_prefix [OF keys] Cons.IH [OF rest] show ?case
    using prefix_order.order_trans by blast
qed

lemma arg_nodes_Cons:
  "arg_nodes g cnode (i # rest) = (inputs (g cnode) ! i) # arg_nodes g cnode rest"
  by (simp add: arg_nodes_def)

lemma build_adjoint_loop_result:
  assumes "build_adjoint_loop g tp cnode args is m = Inr m'"
  shows "map_of m' x =
    (case map_of m x of
       Some adj \<Rightarrow> Some (adj\<lparr>users := users adj @ replicate (count_list (arg_nodes g cnode is) x) cnode\<rparr>)
     | None \<Rightarrow>
         if x \<in> set (arg_nodes g cnode is)
         then Some \<lparr>tape = tp, users = replicate (count_list (arg_nodes g cnode is) x) cnode,
                    op_args = [],
                    out = args ! (hd (filter (\<lambda>i. inputs (g cnode) ! i = x) is) - 1),
                    bprop_fg = None, dout = None\<rparr>
         else None)
    \<and> (x \<in> set (arg_nodes g cnode is) \<and> map_of m x = None \<longrightarrow> \<not> isa_CNode (g x))"
  using assms
proof (induction "is" arbitrary: m)
  case Nil
  then show ?case by (simp add: arg_nodes_def split: option.splits)
next
  case (Cons i rest)
  let ?inp = "inputs (g cnode) ! i"
  let ?R = "arg_nodes g cnode rest"
  show ?case
  proof (cases "map_of m ?inp")
    case None
    let ?leaf = "\<lparr>tape = tp, users = [cnode], op_args = [], out = args ! (i - 1),
                    bprop_fg = None, dout = None\<rparr>"
    let ?m1 = "ordered_insert ?inp ?leaf m"
    from Cons.prems None have nc: "\<not> isa_CNode (g ?inp)"
      and rest: "build_adjoint_loop g tp cnode args rest ?m1 = Inr m'"
      by (auto simp: Let_def split: if_splits)
    have m1: "map_of ?m1 y = (if y = ?inp then Some ?leaf else map_of m y)" for y
      using None by (simp add: map_of_ordered_insert)
    note IH = Cons.IH [OF rest, unfolded m1]
    show ?thesis
    proof (cases "x = ?inp")
      case True
      with IH have "map_of m' x = Some (?leaf\<lparr>users := [cnode] @ replicate (count_list ?R x) cnode\<rparr>)"
        by simp
      then show ?thesis
        using True None nc by (simp add: arg_nodes_Cons split: option.splits)
    next
      case False
      with IH show ?thesis
        by (simp add: arg_nodes_Cons split: option.splits)
    qed
  next
    case (Some adj)
    let ?m1 = "AList.update ?inp (adj\<lparr>users := users adj @ [cnode]\<rparr>) m"
    from Cons.prems Some have rest: "build_adjoint_loop g tp cnode args rest ?m1 = Inr m'"
      by (simp add: Let_def)
    have m1: "map_of ?m1 y = (if y = ?inp then Some (adj\<lparr>users := users adj @ [cnode]\<rparr>) else map_of m y)" for y
      by (simp add: update_conv')
    note IH = Cons.IH [OF rest, unfolded m1]
    show ?thesis
    proof (cases "x = ?inp")
      case True
      with IH have "map_of m' x =
          Some (adj\<lparr>users := (users adj @ [cnode]) @ replicate (count_list ?R x) cnode\<rparr>)"
        by simp
      then show ?thesis
        using True Some by (simp add: arg_nodes_Cons split: option.splits)
    next
      case False
      with IH show ?thesis
        by (simp add: arg_nodes_Cons split: option.splits)
    qed
  qed
qed

lemma map_nth_upt_tl: "map (\<lambda>i. xs ! i) [Suc 0..<length xs] = tl xs"
proof (cases xs)
  case Nil
  then show ?thesis by simp
next
  case (Cons y ys)
  have "map (\<lambda>i. (y # ys) ! i) [Suc 0..<Suc (length ys)] = map (\<lambda>i. (y # ys) ! i) (map Suc [0..<length ys])"
    by (simp only: map_Suc_upt)
  also have "\<dots> = map (\<lambda>i. ys ! i) [0..<length ys]"
    by (simp add: comp_def)
  also have "\<dots> = ys"
    by (rule map_nth)
  finally show ?thesis
    by (simp add: Cons)
qed

lemma arg_nodes_all: "arg_nodes g cnode [1..<length (inputs (g cnode))] = tl (inputs (g cnode))"
  by (simp add: arg_nodes_def map_nth_upt_tl)

lemma hd_filter_first:
  assumes "P i" and "1 \<le> i" and "i < n" and "\<forall>j. 1 \<le> j \<and> j < i \<longrightarrow> \<not> P j"
  shows "hd (filter P [1..<n]) = i"
proof -
  have "[1..<n] = [1..<i] @ i # [Suc i..<n]"
    using assms(2,3) by (metis le_add_diff_inverse less_imp_le_nat upt_add_eq_append upt_conv_Cons)
  moreover have "filter P [1..<i] = []"
    using assms(4) by (auto simp: filter_empty_conv)
  ultimately show ?thesis
    using assms(1) by simp
qed

lemma nth_in_tl:
  assumes "1 \<le> i" and "i < length xs"
  shows "xs ! i \<in> set (tl xs)"
proof -
  from assms obtain y ys where xs: "xs = y # ys" by (cases xs) auto
  with assms obtain k where "i = Suc k" "k < length ys" by (cases i) auto
  with xs show ?thesis by simp
qed

lemma BuildAdjoint_Inr:
  assumes "BuildAdjoint g cnode args output bprop c = Inr c'"
  shows "map_of (anfnode_to_adjoin c) cnode = None"
    and "build_adjoint_loop g (cell_tape c) cnode args [1..<length (inputs (g cnode))]
           (anfnode_to_adjoin c @
              [(cnode, \<lparr>tape = cell_tape c, users = [], op_args = args, out = output,
                        bprop_fg = bprop, dout = None\<rparr>)]) = Inr (anfnode_to_adjoin c')"
    and "c' = c\<lparr>last_node := Some cnode, anfnode_to_adjoin := anfnode_to_adjoin c'\<rparr>"
  using assms
  by (auto simp: BuildAdjoint_def Let_def ordered_insert_def split: option.splits sum.splits)

text \<open>
  C8 (single recording). \<^verbatim>\<open>BuildAdjoint\<close> on a node that already has an adjoint raises "CNode
  should be unique". A recording that succeeds sets \<open>last_node\<close> to the recorded node and
  gives the node an adjoint with the recorded arguments, output and backward function, so
  that recording the same node again fails. The keys recorded before stay where they are
  (the new keys follow them) and keys that were distinct stay distinct: an adjoint is
  created once per node.
\<close>

theorem single_recording:
  "(map_of (anfnode_to_adjoin c) cnode \<noteq> None \<longrightarrow>
      BuildAdjoint g cnode args output bprop c = Inl CNodeShouldBeUnique)
   \<and> (BuildAdjoint g cnode args output bprop c = Inr c' \<longrightarrow>
        last_node c' = Some cnode
      \<and> map_of (anfnode_to_adjoin c) cnode = None
      \<and> (\<exists>adj. map_of (anfnode_to_adjoin c') cnode = Some adj \<and>
                op_args adj = args \<and> out adj = output \<and> bprop_fg adj = bprop)
      \<and> BuildAdjoint g2 cnode args2 output2 bprop2 c' = Inl CNodeShouldBeUnique
      \<and> prefix (map fst (anfnode_to_adjoin c)) (map fst (anfnode_to_adjoin c'))
      \<and> (distinct (map fst (anfnode_to_adjoin c)) \<longrightarrow> distinct (map fst (anfnode_to_adjoin c'))))"
proof -
  have one: "map_of (anfnode_to_adjoin c) cnode \<noteq> None \<longrightarrow>
      BuildAdjoint g cnode args output bprop c = Inl CNodeShouldBeUnique"
    by (auto simp: BuildAdjoint_def)
  have two: "last_node c' = Some cnode
      \<and> map_of (anfnode_to_adjoin c) cnode = None
      \<and> (\<exists>adj. map_of (anfnode_to_adjoin c') cnode = Some adj \<and>
                op_args adj = args \<and> out adj = output \<and> bprop_fg adj = bprop)
      \<and> BuildAdjoint g2 cnode args2 output2 bprop2 c' = Inl CNodeShouldBeUnique
      \<and> prefix (map fst (anfnode_to_adjoin c)) (map fst (anfnode_to_adjoin c'))
      \<and> (distinct (map fst (anfnode_to_adjoin c)) \<longrightarrow> distinct (map fst (anfnode_to_adjoin c')))"
    if ok: "BuildAdjoint g cnode args output bprop c = Inr c'"
  proof -
    let ?adj0 = "\<lparr>tape = cell_tape c, users = [], op_args = args, out = output,
                        bprop_fg = bprop, dout = None\<rparr>"
    let ?m1 = "anfnode_to_adjoin c @ [(cnode, ?adj0)]"
    note none = BuildAdjoint_Inr(1) [OF ok]
    note loop = BuildAdjoint_Inr(2) [OF ok]
    note upd = BuildAdjoint_Inr(3) [OF ok]
    have last: "last_node c' = Some cnode"
      by (subst upd) simp
    have m1: "map_of ?m1 cnode = Some ?adj0"
      using none by (simp add: map_add_def)
    from build_adjoint_loop_result [OF loop, of cnode]
    have new: "\<exists>adj. map_of (anfnode_to_adjoin c') cnode = Some adj \<and>
                op_args adj = args \<and> out adj = output \<and> bprop_fg adj = bprop"
      unfolding m1 by simp
    then have again: "BuildAdjoint g2 cnode args2 output2 bprop2 c' = Inl CNodeShouldBeUnique"
      by (auto simp: BuildAdjoint_def)
    have keys1: "map fst ?m1 = map fst (anfnode_to_adjoin c) @ [cnode]"
      by simp
    have notin: "cnode \<notin> set (map fst (anfnode_to_adjoin c))"
      using none by (simp add: map_of_eq_None_iff)
    from build_adjoint_loop_keys [OF loop]
    have pre: "prefix (map fst ?m1) (map fst (anfnode_to_adjoin c'))"
      and dist: "distinct (map fst ?m1) \<longrightarrow> distinct (map fst (anfnode_to_adjoin c'))"
      by simp_all
    have pre': "prefix (map fst (anfnode_to_adjoin c)) (map fst (anfnode_to_adjoin c'))"
      using pre unfolding keys1 by (rule append_prefixD)
    have dist': "distinct (map fst (anfnode_to_adjoin c)) \<longrightarrow> distinct (map fst (anfnode_to_adjoin c'))"
      using dist notin unfolding keys1 by simp
    from last none new again pre' dist' show ?thesis by blast
  qed
  from one two show ?thesis by blast
qed

theorem single_recording_witness:
  "BuildAdjoint graph_B 2 [10] 20 (Some 7) tape_0 = Inr tape_1
   \<and> last_node tape_1 = Some 2
   \<and> BuildAdjoint graph_B 2 [10] 20 (Some 7) tape_1 = Inl CNodeShouldBeUnique
   \<and> distinct (map fst (anfnode_to_adjoin tape_1))"
proof -
  have first: "BuildAdjoint graph_B 2 [10] 20 (Some 7) tape_0 = Inr tape_1"
    by (simp add: BuildAdjoint_def graph_B_def tape_0_def tape_1_def Let_def ordered_insert_def
        upt_conv_Cons)
  have d0: "distinct (map fst (anfnode_to_adjoin tape_0))"
    by (simp add: tape_0_def)
  from single_recording [of tape_1 2 graph_B "[10]" 20 "Some 7"]
  have again: "BuildAdjoint graph_B 2 [10] 20 (Some 7) tape_1 = Inl CNodeShouldBeUnique"
    by (simp add: tape_1_def)
  from single_recording [of tape_0 2 graph_B "[10]" 20 "Some 7" tape_1] first d0
  have "last_node tape_1 = Some 2 \<and> distinct (map fst (anfnode_to_adjoin tape_1))"
    by blast
  with first again show ?thesis by blast
qed

text \<open>
  C9, as amended. Take an argument of a forward node whose recording succeeds. If the argument
  already had an adjoint on the tape, the forward node is appended to the users of that
  adjoint, once for every argument position that holds this argument. If it had none (and is
  not the recorded node itself), it is not a \<open>CNode\<close> and gets a leaf adjoint: no argument
  values, no backward function, no gradient, the forward node as its user (once per
  position), and the value passed for its first position as output. An argument that is a
  \<open>CNode\<close> without an adjoint makes the recording fail.
\<close>

theorem build_adjoint_links_arguments:
  assumes "1 \<le> i" and "i < length (inputs (g cnode))"
  shows "(BuildAdjoint g cnode args output bprop c = Inr c' \<and>
          map_of (anfnode_to_adjoin c) (inputs (g cnode) ! i) = Some adj \<longrightarrow>
            map_of (anfnode_to_adjoin c') (inputs (g cnode) ! i) =
              Some (adj\<lparr>users := users adj @
                     replicate (count_list (tl (inputs (g cnode))) (inputs (g cnode) ! i)) cnode\<rparr>))
       \<and> (BuildAdjoint g cnode args output bprop c = Inr c' \<and>
          map_of (anfnode_to_adjoin c) (inputs (g cnode) ! i) = None \<and>
          inputs (g cnode) ! i \<noteq> cnode \<longrightarrow>
            \<not> isa_CNode (g (inputs (g cnode) ! i)) \<and>
            (\<exists>leaf. map_of (anfnode_to_adjoin c') (inputs (g cnode) ! i) = Some leaf \<and>
               users leaf = replicate (count_list (tl (inputs (g cnode))) (inputs (g cnode) ! i)) cnode \<and>
               op_args leaf = [] \<and> bprop_fg leaf = None \<and> dout leaf = None \<and>
               tape leaf = cell_tape c \<and>
               ((\<forall>j. 1 \<le> j \<and> j < i \<longrightarrow> inputs (g cnode) ! j \<noteq> inputs (g cnode) ! i) \<longrightarrow>
                  out leaf = args ! (i - 1))))
       \<and> (map_of (anfnode_to_adjoin c) (inputs (g cnode) ! i) = None \<and>
          inputs (g cnode) ! i \<noteq> cnode \<and> isa_CNode (g (inputs (g cnode) ! i)) \<longrightarrow>
            (\<exists>e. BuildAdjoint g cnode args output bprop c = Inl e))"
proof -
  let ?ins = "inputs (g cnode)"
  let ?x = "?ins ! i"
  let ?n = "count_list (tl ?ins) ?x"
  let ?adj0 = "\<lparr>tape = cell_tape c, users = [], op_args = args, out = output,
                        bprop_fg = bprop, dout = None\<rparr>"
  let ?m1 = "anfnode_to_adjoin c @ [(cnode, ?adj0)]"
  have mem: "?x \<in> set (tl ?ins)"
    using assms by (rule nth_in_tl)
  have one: "map_of (anfnode_to_adjoin c') ?x = Some (adj\<lparr>users := users adj @ replicate ?n cnode\<rparr>)"
    if ok: "BuildAdjoint g cnode args output bprop c = Inr c'"
      and had: "map_of (anfnode_to_adjoin c) ?x = Some adj"
  proof -
    have m1: "map_of ?m1 ?x = Some adj"
      using had by (simp add: map_add_def)
    from build_adjoint_loop_result [OF BuildAdjoint_Inr(2) [OF ok], of ?x, unfolded arg_nodes_all m1]
    show ?thesis by simp
  qed
  have two: "\<not> isa_CNode (g ?x) \<and>
      (\<exists>leaf. map_of (anfnode_to_adjoin b) ?x = Some leaf \<and>
         users leaf = replicate ?n cnode \<and> op_args leaf = [] \<and> bprop_fg leaf = None \<and>
         dout leaf = None \<and> tape leaf = cell_tape c \<and>
         ((\<forall>j. 1 \<le> j \<and> j < i \<longrightarrow> ?ins ! j \<noteq> ?x) \<longrightarrow> out leaf = args ! (i - 1)))"
    if ok: "BuildAdjoint g cnode args output bprop c = Inr b"
      and none: "map_of (anfnode_to_adjoin c) ?x = None" and ne: "?x \<noteq> cnode" for b
  proof -
    have m1: "map_of ?m1 ?x = None"
      using none ne by (simp add: map_add_def)
    have first: "hd (filter (\<lambda>j. ?ins ! j = ?x) [1..<length ?ins]) = i"
      if "\<forall>j. 1 \<le> j \<and> j < i \<longrightarrow> ?ins ! j \<noteq> ?x"
      using hd_filter_first [of "\<lambda>j. ?ins ! j = ?x" i "length ?ins"] assms that by simp
    from build_adjoint_loop_result [OF BuildAdjoint_Inr(2) [OF ok], of ?x, unfolded arg_nodes_all m1]
    show ?thesis
      using mem first by auto
  qed
  have three: "\<exists>e. BuildAdjoint g cnode args output bprop c = Inl e"
    if none: "map_of (anfnode_to_adjoin c) ?x = None" and ne: "?x \<noteq> cnode"
      and cn: "isa_CNode (g ?x)"
  proof (cases "BuildAdjoint g cnode args output bprop c")
    case (Inl e)
    then show ?thesis by blast
  next
    case (Inr b)
    from two [OF Inr none ne] cn show ?thesis by blast
  qed
  from one two [of c'] three show ?thesis by blast
qed

theorem build_adjoint_links_arguments_witness:
  "BuildAdjoint graph_B 4 [20, 10] 30 (Some 8) tape_1 = Inr tape_2
   \<and> map_of (anfnode_to_adjoin tape_2) 2 =
       Some \<lparr>tape = 0, users = [4], op_args = [10], out = 20, bprop_fg = Some 7, dout = None\<rparr>
   \<and> BuildAdjoint graph_B 2 [10] 20 (Some 7) tape_0 = Inr tape_1
   \<and> \<not> isa_CNode (graph_B 1)
   \<and> (\<exists>leaf. map_of (anfnode_to_adjoin tape_1) 1 = Some leaf \<and> users leaf = [2] \<and>
         op_args leaf = [] \<and> bprop_fg leaf = None \<and> out leaf = 10)
   \<and> (\<exists>e. BuildAdjoint graph_B 4 [20, 10] 30 (Some 8) tape_0 = Inl e)"
proof -
  have r1: "BuildAdjoint graph_B 2 [10] 20 (Some 7) tape_0 = Inr tape_1"
    by (simp add: BuildAdjoint_def graph_B_def tape_0_def tape_1_def Let_def ordered_insert_def
        upt_conv_Cons)
  have r2: "BuildAdjoint graph_B 4 [20, 10] 30 (Some 8) tape_1 = Inr tape_2"
    by (simp add: BuildAdjoint_def graph_B_def tape_1_def tape_2_def Let_def ordered_insert_def
        upt_conv_Cons)
  have w1: "map_of (anfnode_to_adjoin tape_2) 2 =
       Some \<lparr>tape = 0, users = [4], op_args = [10], out = 20, bprop_fg = Some 7, dout = None\<rparr>"
    using build_adjoint_links_arguments [of 1 graph_B 4 "[20, 10]" 30 "Some 8" tape_1 tape_2
        "\<lparr>tape = 0, users = [], op_args = [10], out = 20, bprop_fg = Some 7, dout = None\<rparr>"] r2
    by (simp add: graph_B_def tape_1_def)
  have w2: "\<not> isa_CNode (graph_B 1) \<and>
      (\<exists>leaf. map_of (anfnode_to_adjoin tape_1) 1 = Some leaf \<and> users leaf = [2] \<and>
         op_args leaf = [] \<and> bprop_fg leaf = None \<and> out leaf = 10)"
    using build_adjoint_links_arguments [of 1 graph_B 2 "[10]" 20 "Some 7" tape_0 tape_1] r1
    by (auto simp: graph_B_def tape_0_def)
  have w3: "\<exists>e. BuildAdjoint graph_B 4 [20, 10] 30 (Some 8) tape_0 = Inl e"
    using build_adjoint_links_arguments [of 1 graph_B 4 "[20, 10]" 30 "Some 8" tape_0]
    by (simp add: graph_B_def tape_0_def)
  from r1 r2 w1 w2 w3 show ?thesis by blast
qed

text \<open>
  The claim of C9 as it is written fails: recording \<open>n2 = g(n1, p0)\<close> on the empty tape, where
  its argument \<open>n1\<close> (address 2) has no adjoint, creates no leaf adjoint for \<open>n1\<close> but raises
  "Cannot find adjoint".
\<close>

theorem unrecorded_cnode_argument_counterexample:
  "map_of (anfnode_to_adjoin tape_0) 2 = None
   \<and> BuildAdjoint graph_B 4 [20, 10] 30 (Some 8) tape_0 = Inl (CannotFindAdjoint 2)"
  by (simp add: BuildAdjoint_def graph_B_def tape_0_def Let_def ordered_insert_def upt_conv_Cons)


lemma flags_raised_refl: "flags_raised N g g"
  by (simp add: flags_raised_def)

lemma set_stop_gradient_idem:
  "set_stop_gradient True (set_stop_gradient True x) = set_stop_gradient True x"
  by (cases x) simp_all

lemma flags_raised_trans:
  assumes "flags_raised N g g1" and "flags_raised K g1 g2"
  shows "flags_raised (N \<union> K) g g2"
  unfolding flags_raised_def
proof
  fix x
  from assms have a: "g1 x = g x \<or> (x \<in> N \<and> g1 x = set_stop_gradient True (g x))"
    and b: "g2 x = g1 x \<or> (x \<in> K \<and> g2 x = set_stop_gradient True (g1 x))"
    by (simp_all add: flags_raised_def)
  then show "g2 x = g x \<or> (x \<in> N \<union> K \<and> g2 x = set_stop_gradient True (g x))"
    by (auto simp: set_stop_gradient_idem)
qed

lemma flags_raised_update: "flags_raised {n} g (g(n := set_stop_gradient True (g n)))"
  by (simp add: flags_raised_def)

lemma flags_raised_outside:
  assumes "flags_raised N g g'" and "x \<notin> N"
  shows "g' x = g x"
  using assms by (auto simp: flags_raised_def)

lemma flags_raised_shape:
  assumes "flags_raised N g g'"
  shows "isa_CNode (g' x) = isa_CNode (g x)" and "inputs (g' x) = inputs (g x)"
    and "(g' x = ValueNode q) = (g x = ValueNode q)"
    and "stop_gradient (g x) \<Longrightarrow> stop_gradient (g' x)"
proof -
  from assms have "g' x = g x \<or> g' x = set_stop_gradient True (g x)"
    by (auto simp: flags_raised_def)
  then show "isa_CNode (g' x) = isa_CNode (g x)" and "inputs (g' x) = inputs (g x)"
    and "(g' x = ValueNode q) = (g x = ValueNode q)"
    and "stop_gradient (g x) \<Longrightarrow> stop_gradient (g' x)"
    by (cases "g x"; auto)+
qed

lemma IsPrimitiveCNode_flags_raised:
  assumes "flags_raised N g g'"
  shows "IsPrimitiveCNode g' n p = IsPrimitiveCNode g n p"
proof -
  have shape: "IsPrimitiveCNode h n p =
      (isa_CNode (h n) \<and> inputs (h n) \<noteq> [] \<and> h (hd (inputs (h n))) = ValueNode (Some p))" for h
    by (auto simp: IsPrimitiveCNode_def split: anf_node.splits list.splits option.splits)
  show ?thesis
    unfolding shape flags_raised_shape(1,2) [OF assms] flags_raised_shape(3) [OF assms] ..
qed

lemma propagate_loop_append:
  "propagate_loop m (xs @ ys) g =
     (case propagate_loop m xs g of Inl e \<Rightarrow> Inl e | Inr g1 \<Rightarrow> propagate_loop m ys g1)"
  by (induction xs arbitrary: g) (auto split: sum.splits)

lemma propagate_loop_flags:
  assumes "set ns \<subseteq> fst ` set m"
  shows "\<exists>g'. propagate_loop m ns g = Inr g' \<and> flags_raised (set ns) g g'"
  using assms
proof (induction ns arbitrary: g)
  case Nil
  then show ?case by (simp add: flags_raised_refl)
next
  case (Cons n rest)
  from Cons.prems obtain adj where adj: "map_of m n = Some adj"
    by (cases "map_of m n") (auto simp: map_of_eq_None_iff)
  let ?g1 = "g(n := set_stop_gradient True (g n))"
  from Cons.prems have sub: "set rest \<subseteq> fst ` set m" by simp
  have step: "\<exists>g1. (g1 = g \<or> g1 = ?g1) \<and>
      propagate_loop m (n # rest) g = propagate_loop m rest g1"
    by (auto simp: AllReferencesStopped_def adj)
  then obtain g1 where g1: "g1 = g \<or> g1 = ?g1"
    and eq: "propagate_loop m (n # rest) g = propagate_loop m rest g1"
    by blast
  from g1 have fr1: "flags_raised {n} g g1"
    using flags_raised_refl flags_raised_update by auto
  from Cons.IH [OF sub, of g1] obtain g' where
    r: "propagate_loop m rest g1 = Inr g'" and fr2: "flags_raised (set rest) g1 g'"
    by blast
  from flags_raised_trans [OF fr1 fr2] have "flags_raised (set (n # rest)) g g'"
    by simp
  with eq r show ?case by auto
qed

lemma propagate_loop_visit:
  assumes "g n = CNode ins False"
    and "\<not> IsPrimitiveCNode g n kPrimStopGradient" and "\<not> IsPrimitiveCNode g n kPrimUpdateState"
    and "map_of m n = Some adj"
  shows "propagate_loop m [n] g =
    Inr (if users adj \<noteq> [] \<and> (\<forall>u \<in> set (users adj). stop_gradient (g u))
         then g(n := CNode ins True) else g)"
proof -
  have "(isa_CNode x \<and> stop_gradient x) = stop_gradient x" for x
    by (cases x) simp_all
  then have "list_all (\<lambda>user. isa_CNode (g user) \<and> stop_gradient (g user)) (users adj)
      = (\<forall>u \<in> set (users adj). stop_gradient (g u))"
    by (simp add: list_all_iff)
  then show ?thesis
    using assms by (simp add: AllReferencesStopped_def)
qed

text \<open>
  C7 (stop-gradient inference). Without the tape-wide flag the propagation changes nothing.
  With it, the pass visits the recorded nodes in reverse creation order and returns. Take a
  recorded \<open>CNode\<close> that is not stopped before the pass and is neither a \<open>stop_gradient\<close> nor
  an \<open>update_state\<close> marker, and let \<open>g1\<close> be the graph at the moment the pass reaches it
  (after the nodes created later). After the pass the node is stopped if and only if it has
  at least one user and every user is stopped in \<open>g1\<close>; with no user it is not stopped.
\<close>

theorem stop_gradient_inference:
  assumes "distinct (map fst (anfnode_to_adjoin c))"
    and "map fst (anfnode_to_adjoin c) = earlier @ n # later"
    and "map_of (anfnode_to_adjoin c) n = Some adj"
    and "g n = CNode ins False"
    and "\<not> IsPrimitiveCNode g n kPrimStopGradient"
    and "\<not> IsPrimitiveCNode g n kPrimUpdateState"
  shows "(\<not> need_propagate_stop_gradient c \<longrightarrow> PropagateStopGradient c g = Inr g)
       \<and> (need_propagate_stop_gradient c \<longrightarrow>
           (\<exists>g1 g'. propagate_loop (anfnode_to_adjoin c) (rev later) g = Inr g1 \<and>
              PropagateStopGradient c g = Inr g' \<and>
              (stop_gradient (g' n) \<longleftrightarrow>
                 users adj \<noteq> [] \<and> (\<forall>u \<in> set (users adj). stop_gradient (g1 u)))))"
proof -
  let ?m = "anfnode_to_adjoin c"
  have keys: "set earlier \<subseteq> fst ` set ?m" "set later \<subseteq> fst ` set ?m"
    using assms(2) by (metis Un_upper1 set_append set_map, metis Un_upper2 set_append set_map set_subset_Cons subset_trans)
  from assms(1,2) have nl: "n \<notin> set later" and ne: "n \<notin> set earlier"
    by auto
  from propagate_loop_flags [of "rev later" ?m g] keys(2) obtain g1 where
    r1: "propagate_loop ?m (rev later) g = Inr g1" and f1: "flags_raised (set later) g g1"
    by auto
  have n1: "g1 n = CNode ins False"
    using flags_raised_outside [OF f1 nl] assms(4) by simp
  have p1: "\<not> IsPrimitiveCNode g1 n kPrimStopGradient" "\<not> IsPrimitiveCNode g1 n kPrimUpdateState"
    using assms(5,6) by (simp_all add: IsPrimitiveCNode_flags_raised [OF f1])
  let ?cond = "users adj \<noteq> [] \<and> (\<forall>u \<in> set (users adj). stop_gradient (g1 u))"
  let ?g2 = "if ?cond then g1(n := CNode ins True) else g1"
  have r2: "propagate_loop ?m [n] g1 = Inr ?g2"
    by (rule propagate_loop_visit [OF n1 p1 assms(3)])
  from propagate_loop_flags [of "rev earlier" ?m ?g2] keys(1) obtain g' where
    r3: "propagate_loop ?m (rev earlier) ?g2 = Inr g'" and f3: "flags_raised (set earlier) ?g2 g'"
    by auto
  have order: "rev (map fst ?m) = rev later @ [n] @ rev earlier"
    by (simp add: assms(2))
  have whole: "propagate_loop ?m (rev (map fst ?m)) g = Inr g'"
    by (simp only: order propagate_loop_append r1 r2 r3 sum.case)
  have "g' n = ?g2 n"
    by (rule flags_raised_outside [OF f3 ne])
  then have iff: "stop_gradient (g' n) \<longleftrightarrow> ?cond"
    using n1 by simp
  have off: "\<not> need_propagate_stop_gradient c \<longrightarrow> PropagateStopGradient c g = Inr g"
    by (simp add: PropagateStopGradient_def)
  have on: "need_propagate_stop_gradient c \<longrightarrow> PropagateStopGradient c g = Inr g'"
    using whole by (simp add: PropagateStopGradient_def)
  from off on r1 iff show ?thesis by blast
qed

theorem stop_gradient_inference_witness:
  "PropagateStopGradient tape_m graph_M =
     Inr (graph_M(6 := CNode [5, 2] True, 2 := CNode [0, 1] True))
   \<and> stop_gradient ((graph_M(6 := CNode [5, 2] True, 2 := CNode [0, 1] True)) 2)
   \<and> PropagateStopGradient tape_2 graph_B = Inr graph_B
   \<and> PropagateStopGradient (tape_2\<lparr>need_propagate_stop_gradient := True\<rparr>) graph_B = Inr graph_B
   \<and> \<not> stop_gradient (graph_B 4)"
proof -
  let ?G1 = "graph_M(6 := CNode [5, 2] True)"
  let ?G = "graph_M(6 := CNode [5, 2] True, 2 := CNode [0, 1] True)"
  let ?adj = "\<lparr>tape = 0, users = [6], op_args = [10], out = 20, bprop_fg = Some 7, dout = None\<rparr>"
  let ?adj4 = "\<lparr>tape = 0, users = [], op_args = [20, 10], out = 30, bprop_fg = Some 8, dout = None\<rparr>"
  let ?t = "tape_2\<lparr>need_propagate_stop_gradient := True\<rparr>"
  have l1: "propagate_loop (anfnode_to_adjoin tape_m) (rev [1, 6]) graph_M = Inr ?G1"
    by (simp add: tape_m_def graph_M_def IsPrimitiveCNode_def)
  have pm: "PropagateStopGradient tape_m graph_M = Inr ?G"
    by (simp add: PropagateStopGradient_def tape_m_def graph_M_def IsPrimitiveCNode_def
        AllReferencesStopped_def)
  have "\<exists>g1 g'. propagate_loop (anfnode_to_adjoin tape_m) (rev [1, 6]) graph_M = Inr g1 \<and>
      PropagateStopGradient tape_m graph_M = Inr g' \<and>
      (stop_gradient (g' 2) \<longleftrightarrow>
         users ?adj \<noteq> [] \<and> (\<forall>u \<in> set (users ?adj). stop_gradient (g1 u)))"
    using stop_gradient_inference [of tape_m "[]" 2 "[1, 6]" ?adj graph_M "[0, 1]"]
    by (simp add: tape_m_def graph_M_def IsPrimitiveCNode_def)
  with l1 pm have "stop_gradient (?G 2) \<longleftrightarrow>
      users ?adj \<noteq> [] \<and> (\<forall>u \<in> set (users ?adj). stop_gradient (?G1 u))"
    by auto
  then have w1: "stop_gradient (?G 2)"
    by simp
  have off: "PropagateStopGradient tape_2 graph_B = Inr graph_B"
    using stop_gradient_inference [of tape_2 "[2, 1]" 4 "[]" ?adj4 graph_B "[3, 2, 1]"]
    by (simp add: tape_2_def graph_B_def IsPrimitiveCNode_def)
  have l2: "propagate_loop (anfnode_to_adjoin ?t) (rev []) graph_B = Inr graph_B"
    by simp
  have p2: "PropagateStopGradient ?t graph_B = Inr graph_B"
    by (simp add: PropagateStopGradient_def tape_2_def graph_B_def IsPrimitiveCNode_def
        AllReferencesStopped_def fun_upd_idem_iff)
  have "\<exists>g1 g'. propagate_loop (anfnode_to_adjoin ?t) (rev []) graph_B = Inr g1 \<and>
      PropagateStopGradient ?t graph_B = Inr g' \<and>
      (stop_gradient (g' 4) \<longleftrightarrow>
         users ?adj4 \<noteq> [] \<and> (\<forall>u \<in> set (users ?adj4). stop_gradient (g1 u)))"
    using stop_gradient_inference [of ?t "[2, 1]" 4 "[]" ?adj4 graph_B "[3, 2, 1]"]
    by (simp add: tape_2_def graph_B_def IsPrimitiveCNode_def)
  with p2 have w2: "\<not> stop_gradient (graph_B 4)"
    by auto
  from pm w1 off p2 w2 show ?thesis by blast
qed


lemma AccumulateDout_Inr:
  assumes "GetHyperAdd (out adj) = Some add_fg"
  shows "AccumulateDout GetHyperAdd f adj =
    Inr (adj\<lparr>dout := Some (case dout adj of None \<Rightarrow> f | Some d \<Rightarrow> HyperAdd add_fg d f)\<rparr>)"
  using assms by (simp add: AccumulateDout_def split: option.splits)

lemma AccumulateDout_all_sum:
  assumes "GetHyperAdd (out adj) = Some add_fg"
  shows "\<exists>adj'. AccumulateDout_all GetHyperAdd fs adj = Inr adj' \<and> out adj' = out adj \<and>
           held \<rho> adj' = held \<rho> adj + sum_list (map (denote \<rho>) fs) \<and>
           held_terms adj' = held_terms adj + (\<Sum>f\<in>#mset fs. summands f)"
  using assms
proof (induction fs arbitrary: adj)
  case Nil
  then show ?case by simp
next
  case (Cons f fs)
  let ?adj1 = "adj\<lparr>dout := Some (case dout adj of None \<Rightarrow> f | Some d \<Rightarrow> HyperAdd add_fg d f)\<rparr>"
  have step: "AccumulateDout GetHyperAdd f adj = Inr ?adj1"
    by (rule AccumulateDout_Inr [of GetHyperAdd adj add_fg f, OF Cons.prems])
  have h1: "held \<rho> ?adj1 = held \<rho> adj + denote \<rho> f"
    by (simp add: held_def split: option.splits)
  have t1: "held_terms ?adj1 = held_terms adj + summands f"
    by (simp add: held_terms_def split: option.splits)
  have "GetHyperAdd (out ?adj1) = Some add_fg"
    using Cons.prems by simp
  from Cons.IH [of ?adj1, OF this] obtain adj' where
    "AccumulateDout_all GetHyperAdd fs ?adj1 = Inr adj'" "out adj' = out ?adj1"
    "held \<rho> adj' = held \<rho> ?adj1 + sum_list (map (denote \<rho>) fs)"
    "held_terms adj' = held_terms ?adj1 + (\<Sum>f\<in>#mset fs. summands f)"
    by blast
  then show ?case
    by (simp add: step h1 t1 add.assoc)
qed

lemma RealDout_held:
  assumes "GetZerosLike (out adj) = Some z"
  shows "\<exists>e. RealDout GetZerosLike adj = Inr e \<and> denote \<rho> e = held \<rho> adj \<and>
           summands e = held_terms adj"
  using assms by (simp add: RealDout_def held_def held_terms_def split: option.splits)

lemma sum_list_denote_mset:
  fixes \<rho> :: "tape_node \<Rightarrow> 'a::comm_monoid_add"
  assumes "mset fs' = mset fs"
  shows "sum_list (map (denote \<rho>) fs') = sum_list (map (denote \<rho>) fs)"
proof -
  have "sum_list (map (denote \<rho>) fs') = sum_mset (image_mset (denote \<rho>) (mset fs'))"
    by (metis mset_map sum_mset_sum_list)
  also have "\<dots> = sum_mset (image_mset (denote \<rho>) (mset fs))"
    by (simp add: assms)
  also have "\<dots> = sum_list (map (denote \<rho>) fs)"
    by (metis mset_map sum_mset_sum_list)
  finally show ?thesis .
qed

text \<open>
  C2 (gradient accumulation). Let an adjoint without gradient receive the contributions
  \<open>fs\<close> through \<^verbatim>\<open>AccumulateDout\<close>, one call each, and let \<open>fs'\<close> be the same contributions in
  another order; the lookups of the \<open>hyper_add\<close> and \<open>zeros_like\<close> graphs succeed. Both
  sequences of calls return, and the gradient read by \<^verbatim>\<open>RealDout\<close> afterwards has the value
  of the sum of all contributions, the same for both orders; the terms it adds up are
  exactly the contributions, so none is overwritten.
\<close>

theorem gradient_accumulation_is_sum:
  fixes \<rho> :: "tape_node \<Rightarrow> 'a::comm_monoid_add"
  assumes "GetHyperAdd (out adj) = Some add_fg"
    and "GetZerosLike (out adj) = Some zeros_like_fg"
    and "dout adj = None"
    and "mset fs' = mset fs"
  shows "\<exists>adj1 adj2 e1 e2.
           AccumulateDout_all GetHyperAdd fs adj = Inr adj1 \<and>
           AccumulateDout_all GetHyperAdd fs' adj = Inr adj2 \<and>
           RealDout GetZerosLike adj1 = Inr e1 \<and>
           RealDout GetZerosLike adj2 = Inr e2 \<and>
           denote \<rho> e1 = sum_list (map (denote \<rho>) fs) \<and>
           denote \<rho> e2 = denote \<rho> e1 \<and>
           summands e1 = (\<Sum>f\<in>#mset fs. summands f) \<and>
           summands e2 = summands e1"
proof -
  have h0: "held \<rho> adj = 0" and t0: "held_terms adj = {#}"
    using assms(3) by (simp_all add: held_def held_terms_def)
  from AccumulateDout_all_sum [of GetHyperAdd adj add_fg fs \<rho>, OF assms(1)] obtain adj1 where
    a1: "AccumulateDout_all GetHyperAdd fs adj = Inr adj1" and o1: "out adj1 = out adj"
    and h1: "held \<rho> adj1 = sum_list (map (denote \<rho>) fs)"
    and t1: "held_terms adj1 = (\<Sum>f\<in>#mset fs. summands f)"
    by (auto simp: h0 t0)
  from AccumulateDout_all_sum [of GetHyperAdd adj add_fg fs' \<rho>, OF assms(1)] obtain adj2 where
    a2: "AccumulateDout_all GetHyperAdd fs' adj = Inr adj2" and o2: "out adj2 = out adj"
    and h2: "held \<rho> adj2 = sum_list (map (denote \<rho>) fs')"
    and t2: "held_terms adj2 = (\<Sum>f\<in>#mset fs'. summands f)"
    by (auto simp: h0 t0)
  from RealDout_held [of GetZerosLike adj1 zeros_like_fg \<rho>] assms(2) o1 obtain e1 where
    r1: "RealDout GetZerosLike adj1 = Inr e1" and d1: "denote \<rho> e1 = held \<rho> adj1"
    and s1: "summands e1 = held_terms adj1"
    by auto
  from RealDout_held [of GetZerosLike adj2 zeros_like_fg \<rho>] assms(2) o2 obtain e2 where
    r2: "RealDout GetZerosLike adj2 = Inr e2" and d2: "denote \<rho> e2 = held \<rho> adj2"
    and s2: "summands e2 = held_terms adj2"
    by auto
  have "denote \<rho> e2 = denote \<rho> e1"
    using d1 d2 h1 h2 sum_list_denote_mset [OF assms(4), of \<rho>] by simp
  moreover have "summands e2 = summands e1"
    using s1 s2 t1 t2 assms(4) by simp
  moreover have "denote \<rho> e1 = sum_list (map (denote \<rho>) fs)"
    using d1 h1 by simp
  moreover have "summands e1 = (\<Sum>f\<in>#mset fs. summands f)"
    using s1 t1 by simp
  ultimately show ?thesis
    using a1 a2 r1 r2 by blast
qed

theorem gradient_accumulation_is_sum_witness:
  "AccumulateDout_all hyper_add_77 [din_n2, din_n1] adjoint_p0 =
     Inr (adjoint_p0\<lparr>dout := Some (HyperAdd 77 din_n2 din_n1)\<rparr>)
   \<and> AccumulateDout_all hyper_add_77 [din_n1, din_n2] adjoint_p0 =
     Inr (adjoint_p0\<lparr>dout := Some (HyperAdd 77 din_n1 din_n2)\<rparr>)
   \<and> denote rho_34 (HyperAdd 77 din_n2 din_n1) = 7
   \<and> denote rho_34 (HyperAdd 77 din_n1 din_n2) = denote rho_34 (HyperAdd 77 din_n2 din_n1)
   \<and> summands (HyperAdd 77 din_n1 din_n2) = summands (HyperAdd 77 din_n2 din_n1)"
proof -
  let ?e1 = "HyperAdd 77 din_n2 din_n1"
  let ?e2 = "HyperAdd 77 din_n1 din_n2"
  have a1: "AccumulateDout_all hyper_add_77 [din_n2, din_n1] adjoint_p0 =
      Inr (adjoint_p0\<lparr>dout := Some ?e1\<rparr>)"
    by (simp add: AccumulateDout_def hyper_add_77_def adjoint_p0_def)
  have a2: "AccumulateDout_all hyper_add_77 [din_n1, din_n2] adjoint_p0 =
      Inr (adjoint_p0\<lparr>dout := Some ?e2\<rparr>)"
    by (simp add: AccumulateDout_def hyper_add_77_def adjoint_p0_def)
  have r1: "RealDout zeros_like_78 (adjoint_p0\<lparr>dout := Some ?e1\<rparr>) = Inr ?e1"
    and r2: "RealDout zeros_like_78 (adjoint_p0\<lparr>dout := Some ?e2\<rparr>) = Inr ?e2"
    by (simp_all add: RealDout_def)
  have "\<exists>adj1 adj2 e1 e2.
      AccumulateDout_all hyper_add_77 [din_n2, din_n1] adjoint_p0 = Inr adj1 \<and>
      AccumulateDout_all hyper_add_77 [din_n1, din_n2] adjoint_p0 = Inr adj2 \<and>
      RealDout zeros_like_78 adj1 = Inr e1 \<and>
      RealDout zeros_like_78 adj2 = Inr e2 \<and>
      denote rho_34 e1 = sum_list (map (denote rho_34) [din_n2, din_n1]) \<and>
      denote rho_34 e2 = denote rho_34 e1 \<and>
      summands e1 = (\<Sum>f\<in>#mset [din_n2, din_n1]. summands f) \<and>
      summands e2 = summands e1"
    using gradient_accumulation_is_sum [of hyper_add_77 adjoint_p0 77 zeros_like_78 78
        "[din_n1, din_n2]" "[din_n2, din_n1]" rho_34]
    by (simp add: hyper_add_77_def zeros_like_78_def adjoint_p0_def)
  with a1 a2 r1 r2 have "denote rho_34 ?e1 = sum_list (map (denote rho_34) [din_n2, din_n1])"
    and "denote rho_34 ?e2 = denote rho_34 ?e1" and "summands ?e2 = summands ?e1"
    by auto
  moreover have "sum_list (map (denote rho_34) [din_n2, din_n1]) = 7"
    by (simp add: rho_34_def din_n1_def din_n2_def)
  ultimately show ?thesis
    using a1 a2 by simp
qed

text \<open>
  \<^verbatim>\<open>BackPropagate(cnode_primal, bprop_app)\<close> reaches the adjoint of an input only through
  \<^verbatim>\<open>AccumulateDout\<close>: one call for every argument position that holds the input, with the
  component of \<open>bprop_app\<close> for that position.
\<close>

lemma back_propagate_loop_accumulates:
  assumes "back_propagate_loop GetHyperAdd ins bprop_app is m = Inr m'"
  shows "(map_of m x = None \<longrightarrow> map_of m' x = None)
    \<and> (\<forall>adj. map_of m x = Some adj \<longrightarrow>
          (\<exists>adj'. AccumulateDout_all GetHyperAdd
                    (map (\<lambda>i. TupleGetItem bprop_app (i - 1)) (filter (\<lambda>i. ins ! i = x) is)) adj
                  = Inr adj' \<and> map_of m' x = Some adj'))"
  using assms
proof (induction "is" arbitrary: m)
  case Nil
  then show ?case by simp
next
  case (Cons i rest)
  let ?inp = "ins ! i"
  let ?din = "TupleGetItem bprop_app (i - 1)"
  from Cons.prems obtain a0 a1 where
    a0: "map_of m ?inp = Some a0"
    and a1: "AccumulateDout GetHyperAdd ?din a0 = Inr a1"
    and rest: "back_propagate_loop GetHyperAdd ins bprop_app rest (AList.update ?inp a1 m) = Inr m'"
    by (auto simp: Let_def split: option.splits sum.splits)
  have m1: "map_of (AList.update ?inp a1 m) y = (if y = ?inp then Some a1 else map_of m y)" for y
    by (simp add: update_conv')
  note IH = Cons.IH [OF rest, unfolded m1]
  show ?case
  proof (cases "x = ?inp")
    case True
    with IH a0 a1 show ?thesis by simp
  next
    case False
    with IH show ?thesis by simp
  qed
qed


end
